theory Spec2Isabelle
  imports Main "HOL-Library.Word"
begin

section \<open>Data model (program\_options.h)\<close>

text \<open>
  The error classification carried by \<open>OptionsException\<close> and
  \<open>SpecificationException\<close> (enum class \<open>OptionsError\<close>).  Only the classification is
  modelled; the human-readable message of an exception is not.
\<close>

datatype OptionsError =
    FlagConflict
  | EmptyIdentifierName
  | DuplicateIdentifier
  | DuplicateShortOption
  | DuplicateLongOption
  | InvalidShortOption
  | InvalidLongOption
  | MultipleInstances
  | MissingOptionArgument
  | OptionNotGiven
  | OptionValueError

text \<open>struct \<open>Option\<close>; the record is called \<open>Option_rec\<close> to keep clear of HOL's
  \<open>option\<close> type.\<close>

record Option_rec =
  name :: string
  short_option :: string
  long_option :: string
  multiple_allowed :: bool
  parameter_expected :: bool

type_synonym Options = "Option_rec list"

text \<open>
  The data members of class \<open>Parser\<close>.  \<open>option_map\<close> is the
  \<open>std::unordered_map<std::string, std::vector<std::string>>\<close>: a partial map from
  option names to value sequences.
\<close>

record Parser =
  options :: Options
  short_flags :: "string list"
  long_flags :: "string list"
  option_value_separator :: string
  case_insensitive :: bool
  option_map :: "string \<rightharpoonup> string list"

text \<open>
  A member function that may throw returns \<open>OptionsError + 'a\<close> (\<open>Inl\<close> is the thrown
  classification) together with the parser state it leaves behind: an exception does not
  roll back what was written to \<open>option_map\<close> before it was raised.
\<close>

type_synonym 'a thrown = "(OptionsError + 'a) \<times> Parser"

section \<open>Character helpers\<close>

text \<open>
  \<open>std::toupper\<close> in the "C" locale: the letters a..z are mapped to A..Z, every other
  character is returned as it is.
\<close>

definition toupper :: "char \<Rightarrow> char" where
  "toupper c =
     (if 97 \<le> (of_char c :: nat) \<and> (of_char c :: nat) \<le> 122
      then char_of ((of_char c :: nat) - 32) else c)"

text \<open>\<open>Parser::Uppercase\<close>: \<open>std::transform\<close> of \<open>toupper\<close> over the string.\<close>

definition Uppercase :: "string \<Rightarrow> string" where
  "Uppercase some_string = map toupper some_string"

section \<open>Prefix matching\<close>

text \<open>
  The loop of \<open>Parser::FindStringStart\<close> over the characters of \<open>prefix\<close>.  The second
  argument is the text between \<open>start_iterator\<close> and \<open>end_iterator\<close>, the third the
  counter \<open>prefix_characters_matched\<close>, an \<open>unsigned\<close> (32 bits).  The loop is entered
  with a non-empty text only and leaves as soon as the iterator reaches the end, so the
  iterator is never dereferenced at the end; the equation for the empty text is not
  reached.
\<close>

fun FindStringStart_loop :: "string \<Rightarrow> string \<Rightarrow> 32 word \<Rightarrow> 32 word \<times> string" where
  "FindStringStart_loop [] s n = (n, s)"
| "FindStringStart_loop (c # cs) [] n = (n, [])"
| "FindStringStart_loop (c # cs) (x # xs) n =
     (if c = x
      then (if xs = [] then (n + 1, []) else FindStringStart_loop cs xs (n + 1))
      else (n, x # xs))"

text \<open>
  \<open>Parser::FindStringStart\<close>: \<open>Some rest\<close> when the function returns true, \<open>rest\<close>
  being the text from the updated \<open>start_iterator\<close> to the end; \<open>None\<close> when it
  returns false (no caller reads the iterator then).  The comparison is of
  \<open>prefix.length()\<close> (a \<open>size_t\<close>) with the 32-bit counter.
\<close>

definition FindStringStart :: "string \<Rightarrow> string \<Rightarrow> string option" where
  "FindStringStart prefix s =
     (if s = [] then None
      else (case FindStringStart_loop prefix s 0 of
              (n, rest) \<Rightarrow> if length prefix = unat n then Some rest else None))"

text \<open>The loop of \<open>Parser::FindOptionStart\<close> over the flag strings, in their order.\<close>

fun FindOptionStart_loop :: "string list \<Rightarrow> string \<Rightarrow> string option" where
  "FindOptionStart_loop [] s = None"
| "FindOptionStart_loop (flag # flags) s =
     (case FindStringStart flag s of
        Some rest \<Rightarrow> Some rest
      | None \<Rightarrow> FindOptionStart_loop flags s)"

definition FindOptionStart :: "string list \<Rightarrow> string \<Rightarrow> string option" where
  "FindOptionStart flags s = (if s = [] then None else FindOptionStart_loop flags s)"

section \<open>The result store\<close>

text \<open>\<open>option_map[key].emplace_back(v)\<close>: \<open>operator[]\<close> creates an empty vector for
  a new key, then the value is appended.\<close>

definition emplace_back :: "Parser \<Rightarrow> string \<Rightarrow> string \<Rightarrow> Parser" where
  "emplace_back P key v =
     P\<lparr>option_map := (option_map P)
          (key \<mapsto> (case option_map P key of None \<Rightarrow> [] | Some vs \<Rightarrow> vs) @ [v])\<rparr>"

text \<open>\<open>Parser::StoreOption\<close>; the result is \<open>parameter_consumed\<close>.\<close>

definition StoreOption :: "Parser \<Rightarrow> Option_rec \<Rightarrow> string option \<Rightarrow> bool thrown" where
  "StoreOption P opt parameter =
     (if option_map P (name opt) \<noteq> None \<and> \<not> multiple_allowed opt
      then (Inl MultipleInstances, P)
      else if \<not> parameter_expected opt
      then (Inr False, emplace_back P (name opt) [])
      else (case parameter of
              None \<Rightarrow> (Inl MissingOptionArgument, P)
            | Some v \<Rightarrow> (Inr True, emplace_back P (name opt) v)))"

section \<open>Long options\<close>

text \<open>
  The inner loop of \<open>Parser::ProcessLongOption\<close> over the characters of
  \<open>option.long_option\<close>: the text is what lies between \<open>argument_end_iterator\<close> and
  the end of the argument, the counter is \<open>option_characters_matched\<close> (an \<open>unsigned\<close>).
\<close>

fun long_option_match :: "bool \<Rightarrow> string \<Rightarrow> string \<Rightarrow> 32 word \<Rightarrow> 32 word \<times> string" where
  "long_option_match ci [] s n = (n, s)"
| "long_option_match ci (c # cs) [] n = (n, [])"
| "long_option_match ci (c # cs) (x # xs) n =
     (if c = x \<or> (ci \<and> toupper c = toupper x)
      then (if xs = [] then (n + 1, []) else long_option_match ci cs xs (n + 1))
      else (n, x # xs))"

text \<open>
  The loop of \<open>Parser::ProcessLongOption\<close> over the option specification.  \<open>span\<close> is
  the argument after the flag.  The result is the pair
  (\<open>matched_option\<close>, \<open>parameter_consumed\<close>) at the end of the loop.  In the
  embedded-value branch the result of \<open>StoreOption\<close> is dropped, as in the source.
\<close>

fun ProcessLongOption_loop ::
  "Parser \<Rightarrow> Option_rec list \<Rightarrow> string \<Rightarrow> string option \<Rightarrow> (bool \<times> bool) thrown" where
  "ProcessLongOption_loop P [] span parameter = (Inr (False, False), P)"
| "ProcessLongOption_loop P (opt # opts) span parameter =
     (if long_option opt = [] then ProcessLongOption_loop P opts span parameter
      else (case long_option_match (case_insensitive P) (long_option opt) span 0 of
        (n, rest) \<Rightarrow>
          if unat n < length (long_option opt)
          then ProcessLongOption_loop P opts span parameter
          else if rest = []
          then (case StoreOption P opt parameter of
                  (Inl e, P') \<Rightarrow> (Inl e, P')
                | (Inr consumed, P') \<Rightarrow> (Inr (True, consumed), P'))
          else (case FindStringStart (option_value_separator P) rest of
                  Some v \<Rightarrow>
                    if \<not> parameter_expected opt then (Inl MissingOptionArgument, P)
                    else if v = [] then (Inl MissingOptionArgument, P)
                    else (case StoreOption P opt (Some v) of
                            (Inl e, P') \<Rightarrow> (Inl e, P')
                          | (Inr consumed, P') \<Rightarrow> (Inr (True, False), P'))
                | None \<Rightarrow> ProcessLongOption_loop P opts span parameter)))"

text \<open>\<open>Parser::ProcessLongOption\<close>; the result is the pair
  (processed as a long option, parameter consumed).\<close>

definition ProcessLongOption :: "Parser \<Rightarrow> string \<Rightarrow> string option \<Rightarrow> (bool \<times> bool) thrown" where
  "ProcessLongOption P argument parameter =
     (if argument = [] then (Inr (False, False), P)
      else (case FindOptionStart (long_flags P) argument of
              None \<Rightarrow> (Inr (False, False), P)
            | Some span \<Rightarrow>
                if span = [] then (Inr (True, False), emplace_back P [] argument)
                else (case ProcessLongOption_loop P (options P) span parameter of
                        (Inl e, P') \<Rightarrow> (Inl e, P')
                      | (Inr (matched_option, parameter_consumed), P') \<Rightarrow>
                          if \<not> matched_option then (Inl InvalidLongOption, P')
                          else (Inr (True, parameter_consumed), P'))))"

section \<open>Short options\<close>

text \<open>
  The inner loop of \<open>Parser::ProcessShortOption\<close> over the specification: it stops
  (\<open>break\<close>) at the first descriptor whose non-empty short form equals the one-character
  string \<open>user_option\<close>, so it is a search for that descriptor.
\<close>

fun find_short_option :: "bool \<Rightarrow> Option_rec list \<Rightarrow> string \<Rightarrow> Option_rec option" where
  "find_short_option ci [] user_option = None"
| "find_short_option ci (opt # opts) user_option =
     (if short_option opt = [] then find_short_option ci opts user_option
      else if short_option opt = user_option \<or>
              (ci \<and> Uppercase (short_option opt) = Uppercase user_option)
      then Some opt
      else find_short_option ci opts user_option)"

text \<open>
  The \<open>while\<close> loop of \<open>Parser::ProcessShortOption\<close> over the characters after the
  flag; the last argument is the variable \<open>parameter_consumed\<close>.  Only the last
  character of the bundle is stored with the candidate \<open>parameter\<close>; every other one is
  stored with an empty optional.
\<close>

fun ProcessShortOption_loop ::
  "Parser \<Rightarrow> string \<Rightarrow> string option \<Rightarrow> bool \<Rightarrow> bool thrown" where
  "ProcessShortOption_loop P [] parameter parameter_consumed = (Inr parameter_consumed, P)"
| "ProcessShortOption_loop P (c # cs) parameter parameter_consumed =
     (case find_short_option (case_insensitive P) (options P) [c] of
        None \<Rightarrow> (Inl InvalidShortOption, P)
      | Some opt \<Rightarrow>
          if cs = []
          then (case StoreOption P opt parameter of
                  (Inl e, P') \<Rightarrow> (Inl e, P')
                | (Inr consumed, P') \<Rightarrow> ProcessShortOption_loop P' cs parameter consumed)
          else (case StoreOption P opt None of
                  (Inl e, P') \<Rightarrow> (Inl e, P')
                | (Inr consumed, P') \<Rightarrow>
                    ProcessShortOption_loop P' cs parameter parameter_consumed))"

definition ProcessShortOption :: "Parser \<Rightarrow> string \<Rightarrow> string option \<Rightarrow> (bool \<times> bool) thrown" where
  "ProcessShortOption P argument parameter =
     (if argument = [] then (Inr (False, False), P)
      else (case FindOptionStart (short_flags P) argument of
              None \<Rightarrow> (Inr (False, False), P)
            | Some rest \<Rightarrow>
                if rest = [] then (Inr (True, False), emplace_back P [] argument)
                else (case ProcessShortOption_loop P rest parameter False of
                        (Inl e, P') \<Rightarrow> (Inl e, P')
                      | (Inr parameter_consumed, P') \<Rightarrow>
                          (Inr (True, parameter_consumed), P'))))"

section \<open>Arguments\<close>

text \<open>\<open>Parser::ProcessArgument\<close>; the result tells whether \<open>parameter\<close> was consumed.\<close>

definition ProcessArgument :: "Parser \<Rightarrow> string \<Rightarrow> string option \<Rightarrow> bool thrown" where
  "ProcessArgument P argument parameter =
     (if argument \<noteq> [] then
        (case ProcessLongOption P argument parameter of
           (Inl e, P') \<Rightarrow> (Inl e, P')
         | (Inr (long_option_matched, long_parameter_consumed), P') \<Rightarrow>
             if long_option_matched then (Inr long_parameter_consumed, P')
             else (case ProcessShortOption P' argument parameter of
                     (Inl e, P'') \<Rightarrow> (Inl e, P'')
                   | (Inr (short_option_matched, short_parameter_consumed), P'') \<Rightarrow>
                       if short_option_matched then (Inr short_parameter_consumed, P'')
                       else (Inr False, emplace_back P'' [] argument)))
      else (Inr False, emplace_back P [] argument))"

text \<open>
  The \<open>for\<close> loop of \<open>Parser::ParseArguments\<close>, on the arguments from index \<open>i\<close> on:
  the parameter is the next argument when there is one, and it is skipped when
  \<open>ProcessArgument\<close> reports it consumed.
\<close>

fun ParseArguments_loop :: "Parser \<Rightarrow> string list \<Rightarrow> unit thrown" where
  "ParseArguments_loop P [] = (Inr (), P)"
| "ParseArguments_loop P [argument] =
     (case ProcessArgument P argument None of
        (Inl e, P') \<Rightarrow> (Inl e, P')
      | (Inr consumed, P') \<Rightarrow> (Inr (), P'))"
| "ParseArguments_loop P (argument # parameter # rest) =
     (case ProcessArgument P argument (Some parameter) of
        (Inl e, P') \<Rightarrow> (Inl e, P')
      | (Inr consumed, P') \<Rightarrow>
          if consumed then ParseArguments_loop P' rest
          else ParseArguments_loop P' (parameter # rest))"

text \<open>\<open>Parser::ParseArguments\<close> on a vector of strings; element 0 is skipped.\<close>

definition ParseArguments :: "Parser \<Rightarrow> string list \<Rightarrow> unit thrown" where
  "ParseArguments P arguments =
     (if length arguments \<le> 1 then (Inr (), P)
      else ParseArguments_loop P (tl arguments))"

section \<open>Installing a specification\<close>

definition ClearOptions :: "Parser \<Rightarrow> Parser" where
  "ClearOptions P = P\<lparr>option_map := Map.empty\<rparr>"

text \<open>\<open>Parser::CheckOptionFlags\<close>: the two nested loops look for a long flag equal to
  a short flag.\<close>

definition CheckOptionFlags :: "Parser \<Rightarrow> OptionsError + unit" where
  "CheckOptionFlags P =
     (if list_ex (\<lambda>long_flag. list_ex (\<lambda>short_flag. long_flag = short_flag) (short_flags P))
           (long_flags P)
      then Inl FlagConflict else Inr ())"

text \<open>
  The loop of \<open>Parser::CheckOptions\<close>; \<open>identifiers\<close>, \<open>short_options\<close> and
  \<open>long_options\<close> are the three local \<open>unordered_map<string, bool>\<close>.
\<close>

fun CheckOptions_loop ::
  "Option_rec list \<Rightarrow> (string \<rightharpoonup> bool) \<Rightarrow> (string \<rightharpoonup> bool) \<Rightarrow> (string \<rightharpoonup> bool)
     \<Rightarrow> OptionsError + unit" where
  "CheckOptions_loop [] identifiers short_options long_options = Inr ()"
| "CheckOptions_loop (opt # opts) identifiers short_options long_options =
     (if name opt = [] then Inl EmptyIdentifierName
      else if identifiers (name opt) \<noteq> None then Inl DuplicateIdentifier
      else if short_option opt \<noteq> [] \<and> short_options (short_option opt) \<noteq> None
      then Inl DuplicateShortOption
      else if short_option opt \<noteq> [] \<and> length (short_option opt) > 1
      then Inl InvalidShortOption
      else if long_option opt \<noteq> [] \<and> long_options (long_option opt) \<noteq> None
      then Inl DuplicateLongOption
      else CheckOptions_loop opts
             (identifiers(name opt \<mapsto> True))
             (if short_option opt \<noteq> [] then short_options(short_option opt \<mapsto> True)
              else short_options)
             (if long_option opt \<noteq> [] then long_options(long_option opt \<mapsto> True)
              else long_options))"

definition CheckOptions :: "Parser \<Rightarrow> OptionsError + unit" where
  "CheckOptions P = CheckOptions_loop (options P) Map.empty Map.empty Map.empty"

text \<open>
  \<open>Parser::SetOptions\<close>: the members are assigned and the results cleared before the
  two checks run, so a failing check leaves the new specification installed and the
  result map empty.
\<close>

definition SetOptions ::
  "Parser \<Rightarrow> Options \<Rightarrow> string list \<Rightarrow> string list \<Rightarrow> string \<Rightarrow> bool \<Rightarrow> unit thrown" where
  "SetOptions P opts sflags lflags separator ci =
     (let P' = ClearOptions
                 (P\<lparr>options := opts, short_flags := sflags, long_flags := lflags,
                     option_value_separator := separator, case_insensitive := ci\<rparr>)
      in case CheckOptionFlags P' of
           Inl e \<Rightarrow> (Inl e, P')
         | Inr u \<Rightarrow> (case CheckOptions P' of
                       Inl e \<Rightarrow> (Inl e, P')
                     | Inr u' \<Rightarrow> (Inr (), P')))"

text \<open>
  The constructor \<open>Parser::Parser(options, short_flags, long_flags,
  option_value_separator, case_insensitive)\<close> of parser.cpp: the member initialisers,
  and an empty body.  A constructor that throws leaves no object, so the result is
  \<open>OptionsError + Parser\<close>.
\<close>

definition Parser_ctor ::
  "Options \<Rightarrow> string list \<Rightarrow> string list \<Rightarrow> string \<Rightarrow> bool \<Rightarrow> OptionsError + Parser" where
  "Parser_ctor opts sflags lflags separator ci =
     Inr \<lparr>options = opts, short_flags = sflags, long_flags = lflags,
          option_value_separator = separator, case_insensitive = ci,
          option_map = Map.empty\<rparr>"

text \<open>The default arguments of the header: flags \<open>-\<close> and \<open>--\<close>, separator \<open>=\<close>,
  case-sensitive matching; and the default constructor \<open>Parser()\<close>, which delegates
  with an empty specification.\<close>

definition default_short_flags :: "string list" where
  "default_short_flags = [''-'']"

definition default_long_flags :: "string list" where
  "default_long_flags = [''--'']"

definition default_separator :: string where
  "default_separator = ''=''"

definition Parser_default :: Parser where
  "Parser_default =
     \<lparr>options = [], short_flags = default_short_flags, long_flags = default_long_flags,
      option_value_separator = default_separator, case_insensitive = False,
      option_map = Map.empty\<rparr>"

section \<open>Typed value accessor\<close>

text \<open>\<open>Parser::OptionGiven\<close>, \<open>Parser::GetOptionCount\<close> and \<open>Parser::FindOptionStrings\<close>.\<close>

definition OptionGiven :: "Parser \<Rightarrow> string \<Rightarrow> bool" where
  "OptionGiven P option_name = (option_map P option_name \<noteq> None)"

definition GetOptionCount :: "Parser \<Rightarrow> string \<Rightarrow> nat" where
  "GetOptionCount P option_name =
     (case option_map P option_name of None \<Rightarrow> 0 | Some vs \<Rightarrow> length vs)"

definition FindOptionStrings :: "Parser \<Rightarrow> string \<Rightarrow> OptionsError + string list" where
  "FindOptionStrings P option_name =
     (case option_map P option_name of None \<Rightarrow> Inl OptionNotGiven | Some vs \<Rightarrow> Inr vs)"

text \<open>
  \<open>GetOptionString\<close> and \<open>GetOptionValue\<close> return \<open>front()\<close> of a vector, which is
  undefined behaviour in C++ when the vector is empty; the model says so instead of
  returning some value.
\<close>

datatype 'a front_result = Retrieved 'a | Thrown OptionsError | Undefined_behaviour

definition GetOptionString :: "Parser \<Rightarrow> string \<Rightarrow> string front_result" where
  "GetOptionString P option_name =
     (case FindOptionStrings P option_name of
        Inl e \<Rightarrow> Thrown e
      | Inr [] \<Rightarrow> Undefined_behaviour
      | Inr (v # vs) \<Rightarrow> Retrieved v)"

text \<open>
  What a converter may throw inside the \<open>try\<close> block of the generic
  \<open>Parser::GetOptionValues\<close>: \<open>std::invalid_argument\<close>, \<open>std::out_of_range\<close>, or
  anything else (\<open>catch (...)\<close>).
\<close>

datatype std_exception = invalid_argument | out_of_range | other_exception

text \<open>
  The range-\<open>for\<close> loop of the generic \<open>Parser::GetOptionValues\<close> over the recorded
  strings: the first exception ends it.  The arguments \<open>min\<close> and \<open>max\<close> of the source
  are written \<open>min'\<close> and \<open>max'\<close>.
\<close>

fun convert_loop ::
  "(string \<Rightarrow> std_exception + 'a) \<Rightarrow> ('a::ord) \<Rightarrow> 'a \<Rightarrow> string list \<Rightarrow> std_exception + 'a list" where
  "convert_loop converter min' max' [] = Inr []"
| "convert_loop converter min' max' (option_string # rest) =
     (case converter option_string of
        Inl e \<Rightarrow> Inl e
      | Inr option_value \<Rightarrow>
          if option_value < min' \<or> option_value > max' then Inl out_of_range
          else (case convert_loop converter min' max' rest of
                  Inl e \<Rightarrow> Inl e
                | Inr option_values \<Rightarrow> Inr (option_value # option_values)))"

text \<open>
  The generic \<open>Parser::GetOptionValues\<close>.  \<open>FindOptionStrings\<close> is called before the
  \<open>try\<close> block, so its \<open>OptionNotGiven\<close> passes through; each of the three handlers
  throws \<open>OptionValueError\<close> (with a different message).  The result is the output
  vector \<open>option_values\<close> at a normal return; what it holds when an exception leaves
  the function is not modelled.
\<close>

definition GetOptionValues ::
  "Parser \<Rightarrow> string \<Rightarrow> (string \<Rightarrow> std_exception + 'a) \<Rightarrow> ('a::ord) \<Rightarrow> 'a \<Rightarrow> OptionsError + 'a list" where
  "GetOptionValues P option_name converter min' max' =
     (case FindOptionStrings P option_name of
        Inl e \<Rightarrow> Inl e
      | Inr options_strings \<Rightarrow>
          (case convert_loop converter min' max' options_strings of
             Inl invalid_argument \<Rightarrow> Inl OptionValueError
           | Inl out_of_range \<Rightarrow> Inl OptionValueError
           | Inl other_exception \<Rightarrow> Inl OptionValueError
           | Inr option_values \<Rightarrow> Inr option_values))"

text \<open>\<open>Parser::GetOptionValue\<close> of the header: all values are converted, then
  \<open>front()\<close> is returned.\<close>

definition GetOptionValue ::
  "Parser \<Rightarrow> string \<Rightarrow> (string \<Rightarrow> std_exception + 'a) \<Rightarrow> ('a::ord) \<Rightarrow> 'a \<Rightarrow> 'a front_result" where
  "GetOptionValue P option_name converter min' max' =
     (case GetOptionValues P option_name converter min' max' of
        Inl e \<Rightarrow> Thrown e
      | Inr [] \<Rightarrow> Undefined_behaviour
      | Inr (option_value # rest) \<Rightarrow> Retrieved option_value)"

text \<open>
  \<open>std::stoul\<close> of the C++ standard library with its default base 10, as the standard
  defines it through \<open>strtoul\<close>: leading white space is skipped, one sign is accepted,
  then the longest run of decimal digits is read and what follows is ignored; no digit
  gives \<open>std::invalid_argument\<close>, a magnitude that does not fit \<open>unsigned long\<close> gives
  \<open>std::out_of_range\<close>, and a minus sign negates the value in \<open>unsigned long\<close>.
  \<open>unsigned long\<close> has 64 bits and \<open>unsigned\<close> 32 bits here (LP64).
\<close>

definition isspace :: "char \<Rightarrow> bool" where
  "isspace c = ((of_char c :: nat) = 32 \<or> (9 \<le> (of_char c :: nat) \<and> (of_char c :: nat) \<le> 13))"

definition isdigit :: "char \<Rightarrow> bool" where
  "isdigit c = (48 \<le> (of_char c :: nat) \<and> (of_char c :: nat) \<le> 57)"

fun digits_value :: "string \<Rightarrow> nat \<Rightarrow> nat" where
  "digits_value [] acc = acc"
| "digits_value (c # cs) acc = digits_value cs (acc * 10 + ((of_char c :: nat) - 48))"

definition stoul :: "string \<Rightarrow> std_exception + 64 word" where
  "stoul str =
     (let s1 = dropWhile isspace str;
          negative = (case s1 of [] \<Rightarrow> False | c # cs \<Rightarrow> c = CHR ''-'');
          s2 = (case s1 of [] \<Rightarrow> [] | c # cs \<Rightarrow> if c = CHR ''-'' \<or> c = CHR ''+'' then cs else s1);
          digits = takeWhile isdigit s2
      in if digits = [] then Inl invalid_argument
         else if digits_value digits 0 \<ge> 2 ^ 64 then Inl out_of_range
         else Inr (if negative then - of_nat (digits_value digits 0)
                   else of_nat (digits_value digits 0)))"

text \<open>
  \<open>Parser::GetOptionValues<unsigned>\<close>: its converter lambda checks the
  \<open>unsigned long\<close> against the bounds before narrowing it to \<open>unsigned\<close>.
\<close>

definition unsigned_converter :: "32 word \<Rightarrow> 32 word \<Rightarrow> string \<Rightarrow> std_exception + 32 word" where
  "unsigned_converter min' max' value =
     (case stoul value of
        Inl e \<Rightarrow> Inl e
      | Inr i \<Rightarrow> if i < ucast min' \<or> i > ucast max' then Inl out_of_range
                 else Inr (ucast i))"

definition GetOptionValues_unsigned :: "Parser \<Rightarrow> string \<Rightarrow> 32 word \<Rightarrow> 32 word \<Rightarrow> OptionsError + 32 word list" where
  "GetOptionValues_unsigned P option_name min' max' =
     GetOptionValues P option_name (unsigned_converter min' max') min' max'"

definition GetOptionValue_unsigned :: "Parser \<Rightarrow> string \<Rightarrow> 32 word \<Rightarrow> 32 word \<Rightarrow> 32 word front_result" where
  "GetOptionValue_unsigned P option_name min' max' =
     GetOptionValue P option_name (unsigned_converter min' max') min' max'"

section \<open>Matching, stated without loops\<close>

text \<open>
  What the matching loops compute, stated without the loops.  \<open>begins_with prefix s\<close>:
  the text \<open>s\<close> starts with exactly the characters of \<open>prefix\<close>.  The match counters
  are 32-bit, so a prefix of \<open>2 ^ 32\<close> or more characters is never matched.
\<close>

definition begins_with :: "string \<Rightarrow> string \<Rightarrow> bool" where
  "begins_with prefix s = (length prefix < 2 ^ 32 \<and> take (length prefix) s = prefix)"

text \<open>The character comparison of the long option loop.\<close>

definition same_letter :: "bool \<Rightarrow> char \<Rightarrow> char \<Rightarrow> bool" where
  "same_letter ci c x = (c = x \<or> (ci \<and> toupper c = toupper x))"

text \<open>\<open>long_form_begins ci long_form span\<close>: the span starts with the long form, letter
  case ignored when \<open>ci\<close> is set.\<close>

definition long_form_begins :: "bool \<Rightarrow> string \<Rightarrow> string \<Rightarrow> bool" where
  "long_form_begins ci long_form span =
     (length long_form < 2 ^ 32 \<and> length long_form \<le> length span \<and>
      list_all2 (same_letter ci) long_form (take (length long_form) span))"



section \<open>Parser states\<close>

text \<open>
  The states a parser object can be in: it is built by one of the two constructors and
  then changed by \<open>SetOptions\<close>, \<open>ClearOptions\<close> and \<open>ParseArguments\<close> only; a call
  that throws leaves the state it had reached.  The accessors do not change the state.
  The copy and move operations that the header declares are not defined in parser.cpp;
  a copy has the state of the object it was made from.
\<close>

inductive reachable :: "Parser \<Rightarrow> bool" where
  constructed: "Parser_ctor opts sflags lflags separator ci = Inr P \<Longrightarrow> reachable P"
| default_constructed: "reachable Parser_default"
| options_set: "reachable P \<Longrightarrow> reachable (snd (SetOptions P opts sflags lflags separator ci))"
| cleared: "reachable P \<Longrightarrow> reachable (ClearOptions P)"
| parsed: "reachable P \<Longrightarrow> reachable (snd (ParseArguments P arguments))"

text \<open>
  \<open>grows m m'\<close>: every value sequence of \<open>m\<close> is still in \<open>m'\<close>, possibly with more
  values after it, and every key that is new in \<open>m'\<close> has at least one value.
\<close>

definition grows :: "(string \<rightharpoonup> string list) \<Rightarrow> (string \<rightharpoonup> string list) \<Rightarrow> bool" where
  "grows m m' =
     (\<forall>k. case m k of
            None \<Rightarrow> (case m' k of None \<Rightarrow> True | Some ws \<Rightarrow> ws \<noteq> [])
          | Some vs \<Rightarrow> (\<exists>ws. m' k = Some (vs @ ws)))"

definition values_nonempty :: "Parser \<Rightarrow> bool" where
  "values_nonempty P = (\<forall>k vs. option_map P k = Some vs \<longrightarrow> vs \<noteq> [])"


section \<open>Example specifications and states\<close>

definition example_options :: Options where
  "example_options =
     [\<lparr>name = ''all'', short_option = ''a'', long_option = ''all'',
        multiple_allowed = False, parameter_expected = False\<rparr>,
      \<lparr>name = ''pattern'', short_option = ''p'', long_option = ''pattern'',
        multiple_allowed = True, parameter_expected = True\<rparr>,
      \<lparr>name = ''color'', short_option = ''c'', long_option = ''color'',
        multiple_allowed = False, parameter_expected = True\<rparr>,
      \<lparr>name = ''size'', short_option = ''s'', long_option = ''min-size'',
        multiple_allowed = False, parameter_expected = True\<rparr>]"

definition example_arguments :: "string list" where
  "example_arguments =
     [''prog'', ''-a'', ''-p'', ''foo'', ''file1'', ''-p'', ''bar'', ''--color'', ''red'',
      ''-s'', ''20'', ''file2'', ''file3'']"

text \<open>The parser after \<open>SetOptions(example_options)\<close> with the default flags,
  separator and case-sensitive matching, as the tests set it up.\<close>

definition example_parser :: Parser where
  "example_parser =
     snd (SetOptions Parser_default example_options default_short_flags default_long_flags
            default_separator False)"

text \<open>The states after parsing \<open>-s 200\<close>, and after parsing the option \<open>pattern\<close>
  twice with the values 5 and x, 5 and 200, and 5 and 6.\<close>

definition size_200 :: Parser where
  "size_200 = snd (ParseArguments example_parser [''prog'', ''-s'', ''200''])"

definition pattern_5_x :: Parser where
  "pattern_5_x = snd (ParseArguments example_parser [''prog'', ''-p'', ''5'', ''-p'', ''x''])"

definition pattern_5_200 :: Parser where
  "pattern_5_200 =
     snd (ParseArguments example_parser [''prog'', ''-p'', ''5'', ''--pattern=200''])"

definition pattern_5_6 :: Parser where
  "pattern_5_6 = snd (ParseArguments example_parser [''prog'', ''-p'', ''5'', ''-p'', ''6''])"




definition dash_parser :: Parser where
  "dash_parser =
     snd (SetOptions Parser_default [] [''/''] [''-'', ''--''] default_separator False)"


text \<open>A specification that breaks several rules at once, and one whose descriptors
  \<open>foo\<close> and \<open>upper\<close> differ in letter case only, installed with the flags \<open>-\<close>,
  \<open>x\<close> (short) and \<open>--\<close>, \<open>xx\<close> (long) and the separator \<open>eq\<close>.\<close>

definition invalid_options :: Options where
  "invalid_options =
     [\<lparr>name = '''', short_option = ''ab'', long_option = ''all'',
        multiple_allowed = False, parameter_expected = False\<rparr>,
      \<lparr>name = '''', short_option = ''ab'', long_option = ''all'',
        multiple_allowed = False, parameter_expected = False\<rparr>]"

definition case_options :: Options where
  "case_options =
     [\<lparr>name = ''foo'', short_option = ''f'', long_option = ''foo'',
        multiple_allowed = True, parameter_expected = False\<rparr>,
      \<lparr>name = ''level'', short_option = ''l'', long_option = ''level'',
        multiple_allowed = True, parameter_expected = True\<rparr>,
      \<lparr>name = ''upper'', short_option = ''F'', long_option = ''FOO'',
        multiple_allowed = True, parameter_expected = False\<rparr>]"

definition case_parser :: "bool \<Rightarrow> Parser" where
  "case_parser ci = snd (SetOptions Parser_default case_options [''-'', ''x''] [''--'', ''xx''] ''eq'' ci)"


section \<open>Evaluation rules\<close>

lemmas parser_eval =
  ParseArguments_def ProcessArgument_def ProcessLongOption_def ProcessShortOption_def
  FindOptionStart_def FindStringStart_def StoreOption_def emplace_back_def
  SetOptions_def ClearOptions_def CheckOptionFlags_def CheckOptions_def Parser_ctor_def
  Parser_default_def default_short_flags_def default_long_flags_def default_separator_def

lemmas char_eval = toupper_def Uppercase_def char_of_def bit_Suc_0_iff

lemmas access_eval =
  OptionGiven_def GetOptionCount_def FindOptionStrings_def GetOptionString_def
  GetOptionValues_def GetOptionValue_def GetOptionValues_unsigned_def
  GetOptionValue_unsigned_def unsigned_converter_def stoul_def isspace_def isdigit_def

lemma SetOptions_state:
  "snd (SetOptions P opts sflags lflags separator ci) =
     P\<lparr>options := opts, short_flags := sflags, long_flags := lflags,
        option_value_separator := separator, case_insensitive := ci,
        option_map := Map.empty\<rparr>"
  by (simp add: SetOptions_def ClearOptions_def Let_def split: sum.splits)

lemma example_parser_eq:
  "example_parser =
     \<lparr>options = example_options, short_flags = [''-''], long_flags = [''--''],
      option_value_separator = ''='', case_insensitive = False, option_map = Map.empty\<rparr>"
  by (simp add: example_parser_def SetOptions_state Parser_default_def
        default_short_flags_def default_long_flags_def default_separator_def)

section \<open>The end-to-end example\<close>

text \<open>
  C1.  Installing the example specification with the default flags succeeds, and parsing
  the thirteen example tokens then returns without an exception and leaves exactly the
  result map all: [""], pattern: ["foo", "bar"], color: ["red"], size: ["20"] and
  "": ["file1", "file2", "file3"], the values in this order; no other key is present.
\<close>

theorem example_parse_result:
  "fst (SetOptions Parser_default example_options default_short_flags default_long_flags
          default_separator False) = Inr () \<and>
   ParseArguments example_parser example_arguments =
     (Inr (),
      example_parser\<lparr>option_map :=
        [''all'' \<mapsto> [''''],
         ''pattern'' \<mapsto> [''foo'', ''bar''],
         ''color'' \<mapsto> [''red''],
         ''size'' \<mapsto> [''20''],
         '''' \<mapsto> [''file1'', ''file2'', ''file3'']]\<rparr>)"
  by (simp add: example_parser_def example_options_def example_arguments_def parser_eval
        fun_eq_iff)

section \<open>Numeric retrieval\<close>

lemma convert_loop_Inr_iff:
  fixes min' :: "'a::linorder"
  shows "convert_loop converter min' max' strs = Inr vs \<longleftrightarrow>
     list_all2 (\<lambda>s v. converter s = Inr v \<and> min' \<le> v \<and> v \<le> max') strs vs"
proof (induction strs arbitrary: vs)
  case Nil
  then show ?case by auto
next
  case (Cons s strs)
  show ?case
    by (cases vs) (auto simp: Cons.IH [symmetric] split: sum.splits)
qed

lemma GetOptionValues_result:
  "GetOptionValues P n conv mn mx =
     (case option_map P n of None \<Rightarrow> Inl OptionNotGiven
      | Some strs \<Rightarrow> (case convert_loop conv mn mx strs of Inl e \<Rightarrow> Inl OptionValueError | Inr vs \<Rightarrow> Inr vs))"
  by (simp add: GetOptionValues_def FindOptionStrings_def split: option.splits sum.splits std_exception.splits)

lemma unsigned_converter_Inr_iff:
  "unsigned_converter mn mx s = Inr v \<longleftrightarrow>
     (\<exists>i. stoul s = Inr i \<and> ucast mn \<le> i \<and> i \<le> ucast mx \<and> v = ucast i)"
  by (auto simp: unsigned_converter_def split: sum.splits)

lemma unat_ucast_32_64: "unat (ucast (w :: 32 word) :: 64 word) = unat w"
proof -
  have "unat w < 2 ^ 32" using unsigned_less [of w] by simp
  then have "unat w < 2 ^ 64" by simp
  then show ?thesis by (simp add: unsigned_ucast_eq take_bit_nat_eq_self)
qed

lemma GetOptionValues_Inr_iff:
  fixes lo :: "'a::linorder"
  assumes "option_map P n = Some strs"
  shows "GetOptionValues P n conv lo hi = Inr vs \<longleftrightarrow>
           list_all2 (\<lambda>s v. conv s = Inr v \<and> lo \<le> v \<and> v \<le> hi) strs vs"
proof -
  have "GetOptionValues P n conv lo hi = Inr vs \<longleftrightarrow> convert_loop conv lo hi strs = Inr vs"
    using assms by (cases "convert_loop conv lo hi strs") (simp_all add: GetOptionValues_result)
  then show ?thesis by (simp add: convert_loop_Inr_iff)
qed

lemma GetOptionValues_cases:
  assumes "option_map P n = Some strs"
  shows "(\<exists>vs. GetOptionValues P n conv lo hi = Inr vs) \<or>
         GetOptionValues P n conv lo hi = Inl OptionValueError"
  using assms by (simp add: GetOptionValues_result split: sum.splits)

lemma GetOptionValues_unsigned_Inr_iff:
  assumes "option_map P n = Some strs"
  shows "GetOptionValues_unsigned P n mn mx = Inr vs \<longleftrightarrow>
           list_all2 (\<lambda>s v. \<exists>i. stoul s = Inr i \<and> unat mn \<le> unat i \<and> unat i \<le> unat mx \<and>
                              v = ucast i \<and> unat v = unat i) strs vs"
proof -
  have eq: "(\<lambda>s v. unsigned_converter mn mx s = Inr v \<and> mn \<le> v \<and> v \<le> mx) =
            (\<lambda>s (v :: 32 word). \<exists>i. stoul s = Inr i \<and> unat mn \<le> unat i \<and> unat i \<le> unat mx \<and>
                              v = ucast i \<and> unat v = unat i)"
  proof (intro ext iffI)
    fix s and v :: "32 word"
    assume "unsigned_converter mn mx s = Inr v \<and> mn \<le> v \<and> v \<le> mx"
    then obtain i where i: "stoul s = Inr i" "ucast mn \<le> i" "i \<le> ucast mx" "v = ucast i"
      by (auto simp: unsigned_converter_Inr_iff)
    have a: "unat mn \<le> unat i" using i(2) by (simp add: word_le_nat_alt unat_ucast_32_64)
    have b: "unat i \<le> unat mx" using i(3) by (simp add: word_le_nat_alt unat_ucast_32_64)
    have "unat mx < 2 ^ 32" using unsigned_less [of mx] by simp
    then have "unat i < 2 ^ 32" using b by simp
    then have "unat (ucast i :: 32 word) = unat i"
      by (simp add: unsigned_ucast_eq take_bit_nat_eq_self)
    with i a b show "\<exists>i. stoul s = Inr i \<and> unat mn \<le> unat i \<and> unat i \<le> unat mx \<and>
                              v = ucast i \<and> unat v = unat i" by auto
  next
    fix s and v :: "32 word"
    assume "\<exists>i. stoul s = Inr i \<and> unat mn \<le> unat i \<and> unat i \<le> unat mx \<and>
                              v = ucast i \<and> unat v = unat i"
    then obtain i where i: "stoul s = Inr i" "unat mn \<le> unat i" "unat i \<le> unat mx"
        "v = ucast i" "unat v = unat i" by auto
    have "ucast mn \<le> i" "i \<le> ucast mx"
      using i(2,3) by (simp_all add: word_le_nat_alt unat_ucast_32_64)
    moreover have "mn \<le> v" "v \<le> mx" using i(2,3,5) by (simp_all add: word_le_nat_alt)
    ultimately show "unsigned_converter mn mx s = Inr v \<and> mn \<le> v \<and> v \<le> mx"
      using i(1,4) by (auto simp: unsigned_converter_Inr_iff)
  qed
  show ?thesis
    unfolding GetOptionValues_unsigned_def GetOptionValues_Inr_iff [OF assms] eq ..
qed

text \<open>
  C7.  When the only recorded value of an option is the text 200, retrieval as an
  unsigned integer fails with \<open>OptionValueError\<close> under the bounds [0, 99] and returns
  200 under the bounds [0, 999].  In general, plural unsigned retrieval of a recorded
  option returns a sequence exactly when every recorded string converts to a number that
  lies between \<open>min\<close> and \<open>max\<close>, both ends included (the sequence is then these
  numbers, in order), and fails with \<open>OptionValueError\<close> otherwise.  The same holds
  of the generic routine for any converter and any linearly ordered numeric type.
\<close>

theorem unsigned_retrieval_bounds:
  "(option_map P n = Some [''200''] \<longrightarrow>
      GetOptionValue_unsigned P n 0 99 = Thrown OptionValueError \<and>
      GetOptionValue_unsigned P n 0 999 = Retrieved 200) \<and>
   (option_map P n = Some strs \<longrightarrow>
      (GetOptionValues_unsigned P n mn mx = Inr vs \<longleftrightarrow>
         list_all2 (\<lambda>s v. \<exists>i. stoul s = Inr i \<and> unat mn \<le> unat i \<and> unat i \<le> unat mx \<and>
                              v = ucast i \<and> unat v = unat i) strs vs) \<and>
      ((\<nexists>ws. GetOptionValues_unsigned P n mn mx = Inr ws) \<longrightarrow>
         GetOptionValues_unsigned P n mn mx = Inl OptionValueError)) \<and>
   (option_map P n = Some strs \<longrightarrow>
      (GetOptionValues P n converter lo hi = Inr us \<longleftrightarrow>
         list_all2 (\<lambda>s v. converter s = Inr v \<and> lo \<le> v \<and> v \<le> hi) strs us) \<and>
      ((\<nexists>ws. GetOptionValues P n converter lo hi = Inr ws) \<longrightarrow>
         GetOptionValues P n converter lo hi = Inl OptionValueError))"
  for lo :: "'a::linorder"
proof (intro conjI impI)
  assume "option_map P n = Some [''200'']"
  then show "GetOptionValue_unsigned P n 0 99 = Thrown OptionValueError"
    and "GetOptionValue_unsigned P n 0 999 = Retrieved 200"
    by (simp_all add: access_eval)
next
  assume "option_map P n = Some strs"
  then show "GetOptionValues_unsigned P n mn mx = Inr vs \<longleftrightarrow>
         list_all2 (\<lambda>s v. \<exists>i. stoul s = Inr i \<and> unat mn \<le> unat i \<and> unat i \<le> unat mx \<and>
                              v = ucast i \<and> unat v = unat i) strs vs"
    by (rule GetOptionValues_unsigned_Inr_iff)
next
  assume "option_map P n = Some strs" "\<nexists>ws. GetOptionValues_unsigned P n mn mx = Inr ws"
  then show "GetOptionValues_unsigned P n mn mx = Inl OptionValueError"
    using GetOptionValues_cases [of P n strs "unsigned_converter mn mx" mn mx]
    by (simp add: GetOptionValues_unsigned_def)
next
  assume "option_map P n = Some strs"
  then show "GetOptionValues P n converter lo hi = Inr us \<longleftrightarrow>
         list_all2 (\<lambda>s v. converter s = Inr v \<and> lo \<le> v \<and> v \<le> hi) strs us"
    by (rule GetOptionValues_Inr_iff)
next
  assume "option_map P n = Some strs" "\<nexists>ws. GetOptionValues P n converter lo hi = Inr ws"
  then show "GetOptionValues P n converter lo hi = Inl OptionValueError"
    using GetOptionValues_cases [of P n strs converter lo hi] by simp
qed

theorem unsigned_retrieval_bounds_witness:
  "option_map size_200 ''size'' = Some [''200''] \<and>
   GetOptionValue_unsigned size_200 ''size'' 0 99 = Thrown OptionValueError \<and>
   GetOptionValue_unsigned size_200 ''size'' 0 999 = Retrieved 200 \<and>
   GetOptionValues_unsigned size_200 ''size'' 0 200 = Inr [200] \<and>
   GetOptionValues_unsigned size_200 ''size'' 200 999 = Inr [200] \<and>
   GetOptionValues_unsigned size_200 ''size'' 0 199 = Inl OptionValueError \<and>
   GetOptionValues size_200 ''size'' (unsigned_converter 0 999) 0 999 = Inr [200]"
proof -
  have m: "option_map size_200 ''size'' = Some [''200'']"
    by (simp add: size_200_def example_parser_eq example_options_def parser_eval)
  have s: "stoul ''200'' = Inr 200"
    by (simp add: stoul_def isspace_def isdigit_def)
  note example = unsigned_retrieval_bounds
    [where P = size_200 and n = "''size''", THEN conjunct1, rule_format, OF m]
  note unsigned = unsigned_retrieval_bounds
    [where P = size_200 and n = "''size''" and strs = "[''200'']",
     THEN conjunct2, THEN conjunct1, rule_format, OF m]
  note generic = unsigned_retrieval_bounds
    [where P = size_200 and n = "''size''" and strs = "[''200'']",
     THEN conjunct2, THEN conjunct2, rule_format, OF m]
  have "GetOptionValues_unsigned size_200 ''size'' 0 200 = Inr [200]"
    using unsigned [of 0 200 "[200]"] s by simp
  moreover have "GetOptionValues_unsigned size_200 ''size'' 200 999 = Inr [200]"
    using unsigned [of 200 999 "[200]"] s by simp
  moreover have "\<And>ws. GetOptionValues_unsigned size_200 ''size'' 0 199 \<noteq> Inr ws"
    using unsigned [of 0 199] s by (auto simp: list_all2_Cons1)
  then have "GetOptionValues_unsigned size_200 ''size'' 0 199 = Inl OptionValueError"
    using unsigned [of 0 199 "[]"] by simp
  moreover have "GetOptionValues size_200 ''size'' (unsigned_converter 0 999) 0 999 = Inr [200]"
    using generic [of "unsigned_converter 0 999" 0 999 "[200]"] s
    by (simp add: unsigned_converter_def)
  ultimately show ?thesis
    using example m by simp
qed

text \<open>
  C10.  Singular numeric retrieval of a recorded option converts and bound-checks every
  recorded value: if any recorded string, at whatever position, fails to convert or
  converts to a value outside [min, max], the retrieval fails with \<open>OptionValueError\<close>;
  if all of them convert to values within the bounds, it returns the conversion of the
  first recorded string only.
\<close>

theorem singular_retrieval_checks_every_value:
  fixes lo :: "'a::linorder"
  assumes "option_map P n = Some strs"
  shows "((\<exists>s\<in>set strs. (\<exists>e. conv s = Inl e) \<or> (\<exists>v. conv s = Inr v \<and> (v < lo \<or> hi < v))) \<longrightarrow>
            GetOptionValue P n conv lo hi = Thrown OptionValueError) \<and>
         ((\<forall>s\<in>set strs. \<exists>v. conv s = Inr v \<and> lo \<le> v \<and> v \<le> hi) \<longrightarrow> strs \<noteq> [] \<longrightarrow>
            (\<exists>v. conv (hd strs) = Inr v \<and> GetOptionValue P n conv lo hi = Retrieved v))"
proof (intro conjI impI)
  assume bad: "\<exists>s\<in>set strs. (\<exists>e. conv s = Inl e) \<or> (\<exists>v. conv s = Inr v \<and> (v < lo \<or> hi < v))"
  have "\<nexists>vs. GetOptionValues P n conv lo hi = Inr vs"
  proof
    assume "\<exists>vs. GetOptionValues P n conv lo hi = Inr vs"
    then obtain vs where "list_all2 (\<lambda>s v. conv s = Inr v \<and> lo \<le> v \<and> v \<le> hi) strs vs"
      using GetOptionValues_Inr_iff [OF assms] by blast
    then have "\<forall>s\<in>set strs. \<exists>v. conv s = Inr v \<and> lo \<le> v \<and> v \<le> hi"
      by (auto simp: list_all2_conv_all_nth in_set_conv_nth)
    with bad show False by force
  qed
  then have "GetOptionValues P n conv lo hi = Inl OptionValueError"
    using GetOptionValues_cases [OF assms, of conv lo hi] by blast
  then show "GetOptionValue P n conv lo hi = Thrown OptionValueError"
    by (simp add: GetOptionValue_def)
next
  assume good: "\<forall>s\<in>set strs. \<exists>v. conv s = Inr v \<and> lo \<le> v \<and> v \<le> hi" and ne: "strs \<noteq> []"
  define vs where "vs = map (\<lambda>s. SOME v. conv s = Inr v) strs"
  have "list_all2 (\<lambda>s v. conv s = Inr v \<and> lo \<le> v \<and> v \<le> hi) strs vs"
    unfolding vs_def list_all2_map2 using good by (auto intro!: list_all2_same [THEN iffD2])
  then have r: "GetOptionValues P n conv lo hi = Inr vs"
    using GetOptionValues_Inr_iff [OF assms] by blast
  from ne obtain s rest where strs: "strs = s # rest" by (cases strs) auto
  then obtain v where v: "conv s = Inr v" using good by auto
  have "vs = v # map (\<lambda>s. SOME v. conv s = Inr v) rest"
    by (simp add: vs_def strs v)
  with r v strs show "\<exists>v. conv (hd strs) = Inr v \<and> GetOptionValue P n conv lo hi = Retrieved v"
    by (simp add: GetOptionValue_def)
qed

theorem singular_retrieval_checks_every_value_witness:
  "option_map pattern_5_x ''pattern'' = Some [''5'', ''x''] \<and>
   GetOptionValue_unsigned pattern_5_x ''pattern'' 0 99 = Thrown OptionValueError \<and>
   option_map pattern_5_200 ''pattern'' = Some [''5'', ''200''] \<and>
   GetOptionValue_unsigned pattern_5_200 ''pattern'' 0 99 = Thrown OptionValueError \<and>
   option_map pattern_5_6 ''pattern'' = Some [''5'', ''6''] \<and>
   GetOptionValue_unsigned pattern_5_6 ''pattern'' 0 99 = Retrieved 5"
proof -
  have a: "option_map pattern_5_x ''pattern'' = Some [''5'', ''x'']"
    and b: "option_map pattern_5_200 ''pattern'' = Some [''5'', ''200'']"
    and c: "option_map pattern_5_6 ''pattern'' = Some [''5'', ''6'']"
    by (simp_all add: pattern_5_x_def pattern_5_200_def pattern_5_6_def example_parser_eq
          example_options_def parser_eval)
  have x: "unsigned_converter 0 99 ''x'' = Inl invalid_argument"
    and y: "unsigned_converter 0 99 ''200'' = Inl out_of_range"
    and five: "unsigned_converter 0 99 ''5'' = Inr 5"
    and six: "unsigned_converter 0 99 ''6'' = Inr 6"
    by (simp_all add: access_eval)
  show ?thesis
    using singular_retrieval_checks_every_value [OF a, of "unsigned_converter 0 99" 0 99]
      singular_retrieval_checks_every_value [OF b, of "unsigned_converter 0 99" 0 99]
      singular_retrieval_checks_every_value [OF c, of "unsigned_converter 0 99" 0 99]
      a b c x y five six
    by (simp add: GetOptionValue_unsigned_def)
qed

section \<open>The matching loops\<close>

lemma unat_word_of_nat_32:
  "k \<le> n \<Longrightarrow> n = unat (word_of_nat k :: 32 word) \<Longrightarrow> k = n \<and> n < 2 ^ 32"
proof -
  assume a: "k \<le> n" and b: "n = unat (word_of_nat k :: 32 word)"
  have c: "unat (word_of_nat k :: 32 word) = k mod 2 ^ 32" by (simp add: unat_of_nat)
  have "k mod 2 ^ 32 \<le> k" by simp
  with a b c have "k = n" by simp
  moreover have "k mod 2 ^ 32 < (2 ^ 32 :: nat)" by simp
  ultimately show ?thesis using b c by simp
qed

lemma FindStringStart_loop_prefix:
  "FindStringStart_loop p (p @ rest) n = (n + word_of_nat (length p), rest)"
  by (induction p arbitrary: n) (auto simp: add.assoc)

lemma FindStringStart_loop_count:
  "FindStringStart_loop p s n = (m, rest) \<Longrightarrow>
     \<exists>k\<le>length p. m = n + word_of_nat k \<and> (k = length p \<longrightarrow> s = p @ rest)"
proof (induction p s n arbitrary: m rest rule: FindStringStart_loop.induct)
  case (1 s n)
  then show ?case by simp
next
  case (2 c cs n)
  then show ?case by (intro exI [of _ 0]) simp
next
  case (3 c cs x xs n)
  show ?case
  proof (cases "c = x")
    case False
    with 3 show ?thesis by (intro exI [of _ 0]) simp
  next
    case True
    show ?thesis
    proof (cases "xs = []")
      case True
      with 3 \<open>c = x\<close> have "m = n + 1" "rest = []" by simp_all
      then show ?thesis using True \<open>c = x\<close> by (intro exI [of _ 1]) auto
    next
      case False
      with 3 \<open>c = x\<close> obtain k where "k \<le> length cs" "m = n + 1 + word_of_nat k"
        "k = length cs \<longrightarrow> xs = cs @ rest" by fastforce
      then show ?thesis using \<open>c = x\<close> by (intro exI [of _ "Suc k"]) (auto simp: add.assoc)
    qed
  qed
qed

lemma FindStringStart_Some_iff:
  "FindStringStart p s = Some rest \<longleftrightarrow> s \<noteq> [] \<and> length p < 2 ^ 32 \<and> s = p @ rest"
proof
  assume a: "FindStringStart p s = Some rest"
  then have ne: "s \<noteq> []" by (auto simp: FindStringStart_def split: if_splits)
  obtain m r where l: "FindStringStart_loop p s 0 = (m, r)" by fastforce
  with a ne have len: "length p = unat m" and r: "r = rest"
    by (auto simp: FindStringStart_def split: if_splits)
  from FindStringStart_loop_count [OF l] obtain k where
    k: "k \<le> length p" "m = word_of_nat k" "k = length p \<longrightarrow> s = p @ r" by auto
  from unat_word_of_nat_32 [of k "length p"] k len have "k = length p" "length p < 2 ^ 32"
    by auto
  with k r ne show "s \<noteq> [] \<and> length p < 2 ^ 32 \<and> s = p @ rest" by simp
next
  assume a: "s \<noteq> [] \<and> length p < 2 ^ 32 \<and> s = p @ rest"
  then have u: "unat (word_of_nat (length p) :: 32 word) = length p"
    by (simp add: unat_of_nat)
  from a have ne: "p @ rest \<noteq> []" and s: "s = p @ rest" by auto
  have "FindStringStart p (p @ rest) = Some rest"
    unfolding FindStringStart_def using ne u by (simp add: FindStringStart_loop_prefix)
  with s show "FindStringStart p s = Some rest" by simp
qed

lemma FindStringStart_eq:
  "FindStringStart p s =
     (if s \<noteq> [] \<and> begins_with p s then Some (drop (length p) s) else None)"
proof (cases "FindStringStart p s")
  case None
  have "\<not> (s \<noteq> [] \<and> begins_with p s)"
  proof
    assume "s \<noteq> [] \<and> begins_with p s"
    then have "s \<noteq> [] \<and> length p < 2 ^ 32 \<and> s = p @ drop (length p) s"
      by (metis append_take_drop_id begins_with_def)
    then have "FindStringStart p s = Some (drop (length p) s)"
      using FindStringStart_Some_iff [of p s "drop (length p) s"] by blast
    with None show False by simp
  qed
  with None show ?thesis by simp
next
  case (Some rest)
  then have "s \<noteq> [] \<and> length p < 2 ^ 32 \<and> s = p @ rest"
    using FindStringStart_Some_iff [of p s rest] by blast
  then show ?thesis using Some by (auto simp: begins_with_def)
qed

lemma FindOptionStart_loop_eq:
  "s \<noteq> [] \<Longrightarrow> FindOptionStart_loop flags s =
     map_option (\<lambda>flag. drop (length flag) s) (find (\<lambda>flag. begins_with flag s) flags)"
  by (induction flags) (simp_all add: FindStringStart_eq)

lemma FindOptionStart_eq:
  "FindOptionStart flags s =
     (if s = [] then None
      else map_option (\<lambda>flag. drop (length flag) s) (find (\<lambda>flag. begins_with flag s) flags))"
  by (simp add: FindOptionStart_def FindOptionStart_loop_eq)


lemma long_option_match_prefix:
  "list_all2 (same_letter ci) L N \<Longrightarrow>
     long_option_match ci L (N @ rest) n = (n + word_of_nat (length L), rest)"
proof (induction L N arbitrary: n rule: list_all2_induct)
  case Nil
  then show ?case by simp
next
  case (Cons c L x N)
  then show ?case by (auto simp: same_letter_def add.assoc)
qed

lemma long_option_match_count:
  "long_option_match ci L s n = (m, rest) \<Longrightarrow>
     \<exists>k\<le>length L. m = n + word_of_nat k \<and>
       (k = length L \<longrightarrow> (\<exists>N. s = N @ rest \<and> list_all2 (same_letter ci) L N))"
proof (induction ci L s n arbitrary: m rest rule: long_option_match.induct)
  case (1 ci s n)
  then show ?case by simp
next
  case (2 ci c cs n)
  then show ?case by (intro exI [of _ 0]) simp
next
  case (3 ci c cs x xs n)
  show ?case
  proof (cases "same_letter ci c x")
    case False
    with "3.prems" have "m = n" by (auto simp: same_letter_def split: if_splits)
    then show ?thesis by (intro exI [of _ 0]) simp
  next
    case True
    show ?thesis
    proof (cases "xs = []")
      case True
      with 3 \<open>same_letter ci c x\<close> have "m = n + 1" "rest = []"
        by (simp_all add: same_letter_def)
      then show ?thesis using True \<open>same_letter ci c x\<close>
        by (intro exI [of _ 1]) auto
    next
      case False
      with 3 \<open>same_letter ci c x\<close> obtain k N where k: "k \<le> length cs"
        "m = n + 1 + word_of_nat k"
        "k = length cs \<longrightarrow> xs = N @ rest \<and> list_all2 (same_letter ci) cs N"
        unfolding same_letter_def by fastforce
      show ?thesis
      proof (intro exI [of _ "Suc k"] conjI impI)
        show "Suc k \<le> length (c # cs)" using k by simp
        show "m = n + word_of_nat (Suc k)" using k by (simp add: add.assoc)
        assume "Suc k = length (c # cs)"
        with k have "x # xs = (x # N) @ rest \<and> list_all2 (same_letter ci) (c # cs) (x # N)"
          using \<open>same_letter ci c x\<close> by simp
        then show "\<exists>N. x # xs = N @ rest \<and> list_all2 (same_letter ci) (c # cs) N" by blast
      qed
    qed
  qed
qed

lemma long_option_match_eq:
  assumes "long_option_match ci L span 0 = (m, rest)"
  shows "(unat m < length L) = (\<not> long_form_begins ci L span)"
    and "long_form_begins ci L span \<Longrightarrow> rest = drop (length L) span"
proof -
  have a: "\<not> unat m < length L \<and> rest = drop (length L) span" if b: "long_form_begins ci L span"
  proof -
    from b have l: "length L < 2 ^ 32" "length L \<le> length span"
      and r: "list_all2 (same_letter ci) L (take (length L) span)"
      by (simp_all add: long_form_begins_def)
    have "long_option_match ci L (take (length L) span @ drop (length L) span) 0 =
            (0 + word_of_nat (length L), drop (length L) span)"
      using r by (rule long_option_match_prefix)
    with assms have "m = word_of_nat (length L)" "rest = drop (length L) span" by simp_all
    moreover have "unat (word_of_nat (length L) :: 32 word) = length L"
      using l by (simp add: unat_of_nat)
    ultimately show ?thesis by simp
  qed
  have c: "long_form_begins ci L span" if d: "\<not> unat m < length L"
  proof -
    from long_option_match_count [OF assms] obtain k where
      k: "k \<le> length L" "m = word_of_nat k"
         "k = length L \<longrightarrow> (\<exists>N. span = N @ rest \<and> list_all2 (same_letter ci) L N)" by auto
    have "unat m = k mod 2 ^ 32" using k by (simp add: unat_of_nat)
    moreover have "k mod 2 ^ 32 \<le> k" by simp
    ultimately have "k = length L" "k mod 2 ^ 32 = k" using d k by simp_all
    moreover have "k mod 2 ^ 32 < (2 ^ 32 :: nat)" by simp
    ultimately have "length L < 2 ^ 32" by simp
    from k \<open>k = length L\<close> obtain N where N: "span = N @ rest" "list_all2 (same_letter ci) L N"
      by auto
    then have "length N = length L" by (simp add: list_all2_lengthD)
    with N \<open>length L < 2 ^ 32\<close> show ?thesis by (simp add: long_form_begins_def)
  qed
  from a c show "(unat m < length L) = (\<not> long_form_begins ci L span)" by blast
  from a show "long_form_begins ci L span \<Longrightarrow> rest = drop (length L) span" by blast
qed




lemma emplace_back_fields [simp]:
  "options (emplace_back P k v) = options P"
  "short_flags (emplace_back P k v) = short_flags P"
  "long_flags (emplace_back P k v) = long_flags P"
  "option_value_separator (emplace_back P k v) = option_value_separator P"
  "case_insensitive (emplace_back P k v) = case_insensitive P"
  by (simp_all add: emplace_back_def)

lemma StoreOption_None_expected:
  "parameter_expected opt \<Longrightarrow>
     StoreOption P opt None =
       (Inl (if option_map P (name opt) \<noteq> None \<and> \<not> multiple_allowed opt
             then MultipleInstances else MissingOptionArgument), P)"
  by (simp add: StoreOption_def)

lemma StoreOption_config:
  "StoreOption P opt parameter = (r, P') \<Longrightarrow>
     options P' = options P \<and> case_insensitive P' = case_insensitive P"
  by (auto simp: StoreOption_def split: if_splits option.splits)

lemma ProcessShortOption_loop_fails:
  assumes "find_short_option (case_insensitive P) (options P) [c] = Some opt"
      and "parameter_expected opt" and "cs \<noteq> []"
  shows "\<exists>e P'. ProcessShortOption_loop P (pre @ c # cs) parameter pc = (Inl e, P')"
  using assms
proof (induction pre arbitrary: P pc)
  case Nil
  then show ?case by (simp add: StoreOption_None_expected)
next
  case (Cons x pre)
  show ?case
  proof (cases "find_short_option (case_insensitive P) (options P) [x]")
    case None
    then show ?thesis by simp
  next
    case (Some d)
    obtain r P1 where s: "StoreOption P d None = (r, P1)" by fastforce
    show ?thesis
    proof (cases r)
      case (Inl e)
      with Some s show ?thesis by simp
    next
      case (Inr b)
      from StoreOption_config [OF s] Cons.prems
      have "find_short_option (case_insensitive P1) (options P1) [c] = Some opt" by simp
      from Cons.IH [OF this Cons.prems(2,3)] Some s Inr show ?thesis by simp
    qed
  qed
qed

section \<open>Embedded values of long options\<close>




section \<open>Bare flags\<close>

text \<open>
  C6 (as amended).  A token is stored verbatim under the positional key,
  without an error and without consuming the following token, when the first long flag
  (in the configured order) that the token begins with is the whole token, or when the
  token begins with no long flag and the first short flag that it begins with is the
  whole token.  Stored: the result map changes at the positional key only, where the
  token is added after the values already there.
\<close>

theorem bare_flag_stored_as_positional:
  assumes "find (\<lambda>flag. begins_with flag argument) (long_flags P) = Some argument \<or>
           (find (\<lambda>flag. begins_with flag argument) (long_flags P) = None \<and>
            find (\<lambda>flag. begins_with flag argument) (short_flags P) = Some argument)"
  shows "ProcessArgument P argument parameter =
           (Inr False,
            P\<lparr>option_map := (option_map P)
              ([] \<mapsto> (case option_map P [] of None \<Rightarrow> [] | Some vs \<Rightarrow> vs) @ [argument])\<rparr>)"
proof (cases "argument = []")
  case True
  then show ?thesis by (simp add: ProcessArgument_def emplace_back_def)
next
  case False
  with assms show ?thesis
    by (auto simp: ProcessArgument_def ProcessLongOption_def ProcessShortOption_def
          FindOptionStart_eq emplace_back_def)
qed

theorem bare_flag_stored_as_positional_witness:
  "ProcessArgument example_parser ''--'' (Some ''next'') =
     (Inr False, example_parser\<lparr>option_map := ['''' \<mapsto> [''--'']]\<rparr>) \<and>
   option_map (snd (ProcessArgument example_parser ''--'' (Some ''next''))) '''' =
     Some [''--''] \<and>
   ProcessArgument example_parser ''-'' (Some ''next'') =
     (Inr False, example_parser\<lparr>option_map := ['''' \<mapsto> [''-'']]\<rparr>) \<and>
   option_map (snd (ProcessArgument example_parser ''-'' (Some ''next''))) '''' =
     Some [''-'']"
proof -
  have P: "long_flags example_parser = [''--'']" "short_flags example_parser = [''-'']"
    "option_map example_parser = Map.empty"
    by (simp_all add: example_parser_eq)
  show ?thesis
    using bare_flag_stored_as_positional [of "''--''" example_parser "Some ''next''"]
      bare_flag_stored_as_positional [of "''-''" example_parser "Some ''next''"]
    by (simp add: P begins_with_def)
qed

text \<open>
  Without the condition on the order of the flags the property fails: with the long flags
  \<open>-\<close> and \<open>--\<close> in this order, the token \<open>--\<close> is one of the long flags, but the
  flag \<open>-\<close> matches first, leaves \<open>-\<close> as an option name, and the token is rejected
  with \<open>InvalidLongOption\<close>.
\<close>

theorem bare_flag_counterexample:
  "fst (SetOptions Parser_default [] [''/''] [''-'', ''--''] default_separator False) = Inr () \<and>
   ''--'' \<in> set (long_flags dash_parser) \<and>
   ProcessArgument dash_parser ''--'' None = (Inl InvalidLongOption, dash_parser)"
  by (simp add: dash_parser_def parser_eval)

section \<open>Value options inside a bundle\<close>

text \<open>
  C4 (as amended).  When the loop over a bundle of short options stands at a character
  that is not the last one and whose descriptor expects a value, matching succeeds and
  the descriptor is handed to the store step with an empty optional, whatever token
  follows the bundle; the store step throws and records nothing.  The error is
  \<open>MissingOptionArgument\<close>, except that the store step checks first for a second
  occurrence of a single-instance option and then throws \<open>MultipleInstances\<close>.  A
  bundle with such a character at any non-last position never returns normally, and
  neither does the processing of a token that consists of a short flag and such a bundle.
\<close>

theorem mid_bundle_value_option:
  assumes "find_short_option (case_insensitive P) (options P) [c] = Some opt"
      and "parameter_expected opt" and "cs \<noteq> []"
  shows "StoreOption P opt None =
           (Inl (if option_map P (name opt) \<noteq> None \<and> \<not> multiple_allowed opt
                 then MultipleInstances else MissingOptionArgument), P) \<and>
         ProcessShortOption_loop P (c # cs) parameter pc = StoreOption P opt None \<and>
         (\<exists>e P'. ProcessShortOption_loop P (pre @ c # cs) parameter pc = (Inl e, P')) \<and>
         (find (\<lambda>flag. begins_with flag argument) (long_flags P) = None \<and>
          find (\<lambda>flag. begins_with flag argument) (short_flags P) = Some flag \<and>
          argument = flag @ pre @ c # cs \<longrightarrow>
            (\<exists>e P'. ProcessArgument P argument parameter = (Inl e, P')))"
proof -
  have token: "\<exists>e P'. ProcessArgument P argument parameter = (Inl e, P')"
    if f: "find (\<lambda>flag. begins_with flag argument) (long_flags P) = None \<and>
          find (\<lambda>flag. begins_with flag argument) (short_flags P) = Some flag \<and>
          argument = flag @ pre @ c # cs"
  proof -
    from f have "begins_with flag argument" by (auto simp: find_Some_iff)
    then have "take (length flag) argument = flag" by (simp add: begins_with_def)
    with f have d: "drop (length flag) argument = pre @ c # cs"
      by (metis append_eq_conv_conj)
    from f have ne: "argument \<noteq> []" by auto
    from f have fl: "find (\<lambda>flag. begins_with flag argument) (long_flags P) = None"
      and fs: "find (\<lambda>flag. begins_with flag argument) (short_flags P) = Some flag"
      by blast+
    obtain e P' where l: "ProcessShortOption_loop P (pre @ c # cs) parameter False = (Inl e, P')"
      using ProcessShortOption_loop_fails [OF assms] by blast
    have "ProcessArgument P argument parameter = (Inl e, P')"
      using fl fs ne d l
      by (simp add: ProcessArgument_def ProcessLongOption_def ProcessShortOption_def
            FindOptionStart_eq)
    then show ?thesis by blast
  qed
  have store: "StoreOption P opt None =
      (Inl (if option_map P (name opt) \<noteq> None \<and> \<not> multiple_allowed opt
            then MultipleInstances else MissingOptionArgument), P)"
    using assms(2) by (rule StoreOption_None_expected)
  have loop: "ProcessShortOption_loop P (c # cs) parameter pc = StoreOption P opt None"
    using assms by (simp add: store)
  from store loop ProcessShortOption_loop_fails [OF assms] token show ?thesis
    by blast
qed

theorem mid_bundle_value_option_witness:
  "ProcessShortOption_loop example_parser ''pa'' (Some ''next'') False =
     (Inl MissingOptionArgument, example_parser) \<and>
   ProcessArgument example_parser ''-pa'' (Some ''next'') =
     (Inl MissingOptionArgument, example_parser) \<and>
   (\<exists>e P'. ProcessArgument example_parser ''-apa'' (Some ''next'') = (Inl e, P'))"
proof -
  have P: "options example_parser = example_options" "case_insensitive example_parser = False"
    "option_map example_parser = Map.empty"
    "long_flags example_parser = [''--'']" "short_flags example_parser = [''-'']"
    by (simp_all add: example_parser_eq)
  have f: "find_short_option (case_insensitive example_parser) (options example_parser)
      [CHR ''p''] = Some (example_options ! 1)"
    by (simp add: P example_options_def)
  have e: "parameter_expected (example_options ! 1)"
    by (simp add: example_options_def)
  have n: "''a'' \<noteq> []"
    by simp
  note t = mid_bundle_value_option [OF f e n]
  have s: "StoreOption example_parser (example_options ! 1) None =
     (Inl MissingOptionArgument, example_parser)"
    using t [THEN conjunct1] by (simp add: P)
  have l: "ProcessShortOption_loop example_parser ''pa'' (Some ''next'') False =
     (Inl MissingOptionArgument, example_parser)"
    using t [THEN conjunct2, THEN conjunct1, of "Some ''next''" False] s by simp
  have a: "ProcessArgument example_parser ''-pa'' (Some ''next'') =
     (Inl MissingOptionArgument, example_parser)"
    using l
    by (simp add: ProcessArgument_def ProcessLongOption_def ProcessShortOption_def
          FindOptionStart_eq begins_with_def P)
  have g: "find (\<lambda>flag. begins_with flag ''-apa'') (long_flags example_parser) = None \<and>
      find (\<lambda>flag. begins_with flag ''-apa'') (short_flags example_parser) = Some ''-'' \<and>
      ''-apa'' = ''-'' @ ''a'' @ CHR ''p'' # ''a''"
    by (simp add: P begins_with_def)
  note t [THEN conjunct2, THEN conjunct2, THEN conjunct2, rule_format, OF g,
    of "Some ''next''"]
  with l a show ?thesis by simp
qed

text \<open>
  The error is not always \<open>MissingOptionArgument\<close>: after \<open>-c red\<close>,
  the bundle \<open>-ca\<close> has \<open>c\<close> (single-instance, expecting a value) at a non-last
  position, and the store step throws \<open>MultipleInstances\<close>.
\<close>

theorem mid_bundle_counterexample:
  "find_short_option (case_insensitive example_parser) (options example_parser) ''c'' =
     Some \<lparr>name = ''color'', short_option = ''c'', long_option = ''color'',
           multiple_allowed = False, parameter_expected = True\<rparr> \<and>
   fst (ParseArguments example_parser [''prog'', ''-c'', ''red'', ''-ca'', ''blue'']) =
     Inl MultipleInstances"
  by (simp add: example_parser_def example_options_def parser_eval)

section \<open>The result map only grows during a parse\<close>

lemma grows_refl [simp]: "grows m m"
  by (simp add: grows_def split: option.splits)

lemma grows_trans: "grows m1 m2 \<Longrightarrow> grows m2 m3 \<Longrightarrow> grows m1 m3"
  unfolding grows_def
proof (intro allI)
  fix k
  assume a: "\<forall>k. case m1 k of None \<Rightarrow> (case m2 k of None \<Rightarrow> True | Some ws \<Rightarrow> ws \<noteq> [])
                | Some vs \<Rightarrow> \<exists>ws. m2 k = Some (vs @ ws)"
    and b: "\<forall>k. case m2 k of None \<Rightarrow> (case m3 k of None \<Rightarrow> True | Some ws \<Rightarrow> ws \<noteq> [])
                | Some vs \<Rightarrow> \<exists>ws. m3 k = Some (vs @ ws)"
  from a [rule_format, of k] b [rule_format, of k]
  show "case m1 k of None \<Rightarrow> (case m3 k of None \<Rightarrow> True | Some ws \<Rightarrow> ws \<noteq> [])
                | Some vs \<Rightarrow> \<exists>ws. m3 k = Some (vs @ ws)"
    by (auto split: option.splits)
qed

lemma grows_emplace_back: "grows (option_map P) (option_map (emplace_back P key v))"
  by (auto simp: grows_def emplace_back_def split: option.splits)

lemma grows_StoreOption:
  "grows (option_map P) (option_map (snd (StoreOption P opt parameter)))"
  by (simp add: StoreOption_def grows_emplace_back split: option.splits)

lemma grows_ProcessLongOption_loop:
  "grows (option_map P) (option_map (snd (ProcessLongOption_loop P opts span parameter)))"
proof (induction opts)
  case Nil
  then show ?case by simp
next
  case (Cons opt opts)
  have s: "grows (option_map P) (option_map P')" if "StoreOption P opt q = (r, P')" for q r P'
    using grows_StoreOption [of P opt q] that by simp
  show ?case
    using Cons by (auto split: prod.splits sum.splits option.splits dest: s)
qed

lemma grows_ProcessLongOption_loopD:
  "ProcessLongOption_loop P opts span parameter = (r, P') \<Longrightarrow>
     grows (option_map P) (option_map P')"
  using grows_ProcessLongOption_loop [of P opts span parameter] by simp

lemma grows_ProcessLongOption:
  "grows (option_map P) (option_map (snd (ProcessLongOption P argument parameter)))"
  by (auto simp: ProcessLongOption_def grows_emplace_back
        split: option.splits prod.splits sum.splits dest: grows_ProcessLongOption_loopD)

lemma grows_ProcessShortOption_loop:
  "grows (option_map P) (option_map (snd (ProcessShortOption_loop P cs parameter pc)))"
proof (induction cs arbitrary: P pc)
  case Nil
  then show ?case by simp
next
  case (Cons c cs)
  show ?case
  proof (cases "find_short_option (case_insensitive P) (options P) [c]")
    case None
    then show ?thesis by simp
  next
    case (Some opt)
    let ?q = "if cs = [] then parameter else None"
    obtain r P1 where s: "StoreOption P opt ?q = (r, P1)" by fastforce
    have g1: "grows (option_map P) (option_map P1)"
      using grows_StoreOption [of P opt ?q] s by simp
    show ?thesis
    proof (cases r)
      case (Inl e)
      with Some s g1 show ?thesis by (auto split: if_splits)
    next
      case (Inr b)
      have "grows (option_map P1) (option_map (snd (ProcessShortOption_loop P1 cs parameter pc')))"
        for pc' by (rule Cons.IH)
      from grows_trans [OF g1 this] Some s Inr show ?thesis by (auto split: if_splits)
    qed
  qed
qed

lemma grows_ProcessShortOption_loopD:
  "ProcessShortOption_loop P cs parameter pc = (r, P') \<Longrightarrow>
     grows (option_map P) (option_map P')"
  using grows_ProcessShortOption_loop [of P cs parameter pc] by simp

lemma grows_ProcessShortOption:
  "grows (option_map P) (option_map (snd (ProcessShortOption P argument parameter)))"
  by (auto simp: ProcessShortOption_def grows_emplace_back
        split: option.splits prod.splits sum.splits dest: grows_ProcessShortOption_loopD)

lemma grows_ProcessArgument:
  "grows (option_map P) (option_map (snd (ProcessArgument P argument parameter)))"
proof -
  obtain r P1 where l: "ProcessLongOption P argument parameter = (r, P1)" by fastforce
  have g1: "grows (option_map P) (option_map P1)"
    using grows_ProcessLongOption [of P argument parameter] l by simp
  obtain r2 P2 where s: "ProcessShortOption P1 argument parameter = (r2, P2)" by fastforce
  have g2: "grows (option_map P) (option_map P2)"
    using grows_trans [OF g1 grows_ProcessShortOption [of P1 argument parameter]] s by simp
  have g3: "grows (option_map P) (option_map (emplace_back P2 [] argument))"
    by (rule grows_trans [OF g2 grows_emplace_back])
  show ?thesis
    using l s g1 g2 g3
    by (auto simp: ProcessArgument_def grows_emplace_back split: sum.splits prod.splits)
qed

lemma grows_ParseArguments_loop:
  "grows (option_map P) (option_map (snd (ParseArguments_loop P arguments)))"
proof (induction P arguments rule: ParseArguments_loop.induct)
  case (1 P)
  then show ?case by simp
next
  case (2 P argument)
  then show ?case
    using grows_ProcessArgument [of P argument None]
    by (auto split: prod.splits sum.splits)
next
  case (3 P argument parameter rest)
  obtain r P1 where p: "ProcessArgument P argument (Some parameter) = (r, P1)" by fastforce
  have g1: "grows (option_map P) (option_map P1)"
    using grows_ProcessArgument [of P argument "Some parameter"] p by simp
  show ?case
  proof (cases r)
    case (Inl e)
    with p g1 show ?thesis by simp
  next
    case (Inr consumed)
    with 3 p have "grows (option_map P1)
        (option_map (snd (if consumed then ParseArguments_loop P1 rest
                          else ParseArguments_loop P1 (parameter # rest))))"
      by auto
    from grows_trans [OF g1 this] p Inr show ?thesis by simp
  qed
qed

lemma grows_ParseArguments:
  "grows (option_map P) (option_map (snd (ParseArguments P arguments)))"
  by (simp add: ParseArguments_def grows_ParseArguments_loop)

lemma grows_values_nonempty:
  assumes "values_nonempty P" "grows (option_map P) (option_map P')"
  shows "values_nonempty P'"
  unfolding values_nonempty_def
proof (intro allI impI)
  fix k vs
  assume a: "option_map P' k = Some vs"
  from assms(2) [unfolded grows_def, rule_format, of k] a assms(1)
  show "vs \<noteq> []" by (auto simp: values_nonempty_def split: option.splits)
qed

lemma reachable_values_nonempty: "reachable P \<Longrightarrow> values_nonempty P"
proof (induction rule: reachable.induct)
  case (constructed opts sflags lflags separator ci P)
  then show ?case by (auto simp: Parser_ctor_def values_nonempty_def)
next
  case default_constructed
  then show ?case by (simp add: Parser_default_def values_nonempty_def)
next
  case (options_set P opts sflags lflags separator ci)
  then show ?case by (simp add: SetOptions_state values_nonempty_def)
next
  case (cleared P)
  then show ?case by (simp add: ClearOptions_def values_nonempty_def)
next
  case (parsed P arguments)
  then show ?case using grows_ParseArguments grows_values_nonempty by blast
qed

section \<open>Recorded value sequences are never empty\<close>

text \<open>
  C9.  In every state a parser object can reach, every value sequence present in the
  result map is non-empty; hence for every option name whose presence \<open>OptionGiven\<close>
  reports, \<open>GetOptionCount\<close> is at least 1 and \<open>GetOptionString\<close> is defined (it does
  not take \<open>front()\<close> of an empty vector) and returns the first recorded value.  The
  invariant holds because a successful store step appends exactly one value to the
  sequence of the option's name (creating the key if needed), and a parse never removes
  a value: every sequence present before it is a prefix of the sequence after it.
\<close>

theorem recorded_values_nonempty:
  assumes "reachable P"
  shows "(\<forall>k vs. option_map P k = Some vs \<longrightarrow> vs \<noteq> []) \<and>
         (OptionGiven P option_name \<longrightarrow>
            1 \<le> GetOptionCount P option_name \<and>
            (\<exists>v vs. option_map P option_name = Some (v # vs) \<and>
                    GetOptionString P option_name = Retrieved v)) \<and>
         (\<forall>opt parameter b P'. StoreOption P opt parameter = (Inr b, P') \<longrightarrow>
            (\<exists>v. option_map P' = (option_map P)
               (name opt \<mapsto> (case option_map P (name opt) of None \<Rightarrow> [] | Some vs \<Rightarrow> vs) @ [v]))) \<and>
         (\<forall>arguments k vs. option_map P k = Some vs \<longrightarrow>
            (\<exists>ws. option_map (snd (ParseArguments P arguments)) k = Some (vs @ ws)))"
proof -
  have store: "\<exists>v. option_map P' = (option_map P)
      (name opt \<mapsto> (case option_map P (name opt) of None \<Rightarrow> [] | Some vs \<Rightarrow> vs) @ [v])"
    if "StoreOption P opt parameter = (Inr b, P')" for opt parameter b P'
    using that by (auto simp: StoreOption_def emplace_back_def split: if_splits option.splits)
  have keep: "\<exists>ws. option_map (snd (ParseArguments P arguments)) k = Some (vs @ ws)"
    if "option_map P k = Some vs" for arguments k vs
    using grows_ParseArguments [of P arguments, unfolded grows_def, rule_format, of k] that
    by simp
  from reachable_values_nonempty [OF assms]
  have n: "\<forall>k vs. option_map P k = Some vs \<longrightarrow> vs \<noteq> []" by (simp add: values_nonempty_def)
  have "1 \<le> GetOptionCount P option_name \<and>
            (\<exists>v vs. option_map P option_name = Some (v # vs) \<and>
                    GetOptionString P option_name = Retrieved v)" if "OptionGiven P option_name"
  proof -
    from that obtain ws where ws: "option_map P option_name = Some ws"
      by (auto simp: OptionGiven_def)
    with n have "ws \<noteq> []" by blast
    then obtain v vs where "ws = v # vs" by (cases ws) auto
    with ws show ?thesis
      by (simp add: GetOptionCount_def GetOptionString_def FindOptionStrings_def)
  qed
  with n store keep show ?thesis by blast
qed

theorem recorded_values_nonempty_witness:
  "reachable (snd (ParseArguments example_parser example_arguments)) \<and>
   OptionGiven (snd (ParseArguments example_parser example_arguments)) ''pattern'' \<and>
   GetOptionCount (snd (ParseArguments example_parser example_arguments)) ''pattern'' = 2 \<and>
   GetOptionString (snd (ParseArguments example_parser example_arguments)) ''pattern'' =
     Retrieved ''foo''"
proof -
  let ?P = "snd (ParseArguments example_parser example_arguments)"
  have r: "reachable ?P"
    unfolding example_parser_def
    by (intro reachable.parsed reachable.options_set reachable.default_constructed)
  have m: "option_map ?P ''pattern'' = Some [''foo'', ''bar'']"
    by (simp add: example_parser_eq example_options_def example_arguments_def parser_eval)
  from recorded_values_nonempty [OF r, of "''pattern''"] m show ?thesis
    using r by (simp add: OptionGiven_def GetOptionCount_def)
qed

section \<open>Installing a specification resets the results, parsing again does not\<close>

text \<open>
  C2 (as amended).  In every parser state, \<open>SetOptions\<close> leaves the result map empty
  (also when it throws), and so does \<open>ClearOptions\<close>.  \<open>ParseArguments\<close> does not clear
  anything: every value sequence recorded before the call is still there after it, with
  the values of the new parse appended.
\<close>

theorem reparse_accumulates:
  "option_map (snd (SetOptions P opts sflags lflags separator ci)) = Map.empty \<and>
   option_map (ClearOptions P) = Map.empty \<and>
   (option_map P k = Some vs \<longrightarrow>
      (\<exists>ws. option_map (snd (ParseArguments P arguments)) k = Some (vs @ ws)))"
proof -
  have "\<exists>ws. option_map (snd (ParseArguments P arguments)) k = Some (vs @ ws)"
    if "option_map P k = Some vs"
    using grows_ParseArguments [of P arguments, unfolded grows_def, rule_format, of k] that
    by simp
  then show ?thesis by (simp add: SetOptions_state ClearOptions_def)
qed

theorem reparse_accumulates_witness:
  "option_map (snd (ParseArguments example_parser [''prog'', ''one''])) [] = Some [''one''] \<and>
   (\<exists>ws. option_map (snd (ParseArguments (snd (ParseArguments example_parser [''prog'', ''one'']))
                            [''prog'', ''two''])) [] = Some ([''one''] @ ws)) \<and>
   option_map (snd (SetOptions (snd (ParseArguments example_parser [''prog'', ''one'']))
                      example_options default_short_flags default_long_flags
                      default_separator False)) = Map.empty"
proof -
  have m: "option_map (snd (ParseArguments example_parser [''prog'', ''one''])) [] = Some [''one'']"
    by (simp add: example_parser_eq parser_eval)
  from reparse_accumulates [of "snd (ParseArguments example_parser [''prog'', ''one''])"
      example_options default_short_flags default_long_flags default_separator False
      "[]" "[''one'']" "[''prog'', ''two'']"] m
  show ?thesis by simp
qed

text \<open>
  A second parse does not clear the results of the first: after parsing
  \<open>prog one\<close> and then \<open>prog two\<close> on the same parser, the positional values are
  \<open>one\<close> and \<open>two\<close>.
\<close>

theorem reparse_counterexample:
  "option_map (snd (ParseArguments (snd (ParseArguments example_parser [''prog'', ''one'']))
                      [''prog'', ''two''])) [] = Some [''one'', ''two'']"
  by (simp add: example_parser_eq parser_eval)

section \<open>Validation of a specification\<close>

text \<open>What \<open>CheckOptions\<close> and \<open>SetOptions\<close> accept.\<close>

lemma CheckOptions_loop_Inr_iff:
  "CheckOptions_loop opts identifiers short_options long_options = Inr () \<longleftrightarrow>
     (\<forall>d\<in>set opts. name d \<noteq> [] \<and> length (short_option d) \<le> 1 \<and>
        identifiers (name d) = None \<and>
        (short_option d \<noteq> [] \<longrightarrow> short_options (short_option d) = None) \<and>
        (long_option d \<noteq> [] \<longrightarrow> long_options (long_option d) = None)) \<and>
     distinct (map name opts) \<and>
     distinct (filter (\<lambda>s. s \<noteq> []) (map short_option opts)) \<and>
     distinct (filter (\<lambda>s. s \<noteq> []) (map long_option opts))"
proof (induction opts arbitrary: identifiers short_options long_options)
  case Nil
  then show ?case by simp
next
  case (Cons opt opts)
  have step: "CheckOptions_loop (opt # opts) identifiers short_options long_options = Inr () \<longleftrightarrow>
      name opt \<noteq> [] \<and> identifiers (name opt) = None \<and>
      (short_option opt \<noteq> [] \<longrightarrow>
         short_options (short_option opt) = None \<and> length (short_option opt) \<le> 1) \<and>
      (long_option opt \<noteq> [] \<longrightarrow> long_options (long_option opt) = None) \<and>
      CheckOptions_loop opts (identifiers(name opt \<mapsto> True))
        (if short_option opt \<noteq> [] then short_options(short_option opt \<mapsto> True)
         else short_options)
        (if long_option opt \<noteq> [] then long_options(long_option opt \<mapsto> True)
         else long_options) = Inr ()"
    by auto
  show ?case
    unfolding step Cons.IH
    by (cases "short_option opt = []"; cases "long_option opt = []")
       (auto simp: image_iff)
qed

text \<open>
  \<open>SetOptions\<close> returns without an exception exactly when no string is both a short and
  a long flag, no name is empty, no short form has more than one character, and names,
  non-empty short forms and non-empty long forms are each pairwise different.
\<close>

lemma SetOptions_succeeds_iff:
  "fst (SetOptions P opts sflags lflags separator ci) = Inr () \<longleftrightarrow>
     set lflags \<inter> set sflags = {} \<and>
     (\<forall>d\<in>set opts. name d \<noteq> [] \<and> length (short_option d) \<le> 1) \<and>
     distinct (map name opts) \<and>
     distinct (filter (\<lambda>s. s \<noteq> []) (map short_option opts)) \<and>
     distinct (filter (\<lambda>s. s \<noteq> []) (map long_option opts))"
proof -
  have f: "CheckOptionFlags Q = Inr () \<longleftrightarrow> set (long_flags Q) \<inter> set (short_flags Q) = {}" for Q
    by (auto simp: CheckOptionFlags_def list_ex_iff)
  have c: "CheckOptions Q = Inr () \<longleftrightarrow>
      (\<forall>d\<in>set (options Q). name d \<noteq> [] \<and> length (short_option d) \<le> 1) \<and>
      distinct (map name (options Q)) \<and>
      distinct (filter (\<lambda>s. s \<noteq> []) (map short_option (options Q))) \<and>
      distinct (filter (\<lambda>s. s \<noteq> []) (map long_option (options Q)))" for Q
    by (simp add: CheckOptions_def CheckOptions_loop_Inr_iff)
  define Q where "Q = ClearOptions (P\<lparr>options := opts, short_flags := sflags,
      long_flags := lflags, option_value_separator := separator, case_insensitive := ci\<rparr>)"
  have Q: "options Q = opts" "short_flags Q = sflags" "long_flags Q = lflags"
    by (simp_all add: Q_def ClearOptions_def)
  have "fst (SetOptions P opts sflags lflags separator ci) = Inr () \<longleftrightarrow>
      CheckOptionFlags Q = Inr () \<and> CheckOptions Q = Inr ()"
    unfolding SetOptions_def Let_def Q_def [symmetric]
    by (cases "CheckOptionFlags Q"; cases "CheckOptions Q") simp_all
  then show ?thesis by (simp add: f c Q)
qed

text \<open>
  C3.  The constructor taking options does not validate: for a specification with an
  empty name, a repeated name, a repeated two-character short form, a repeated long form
  and a flag \<open>-\<close> that is both short and long, it returns a parser, where \<open>SetOptions\<close>
  on the same arguments throws \<open>FlagConflict\<close> (and \<open>EmptyIdentifierName\<close> once the flags
  differ).  The comment of the constructor says that it may throw when the options or
  the flags are invalid.
\<close>

theorem constructor_skips_validation:
  "(\<exists>P. Parser_ctor invalid_options [''-''] [''-''] ''='' False = Inr P) \<and>
   fst (SetOptions Parser_default invalid_options [''-''] [''-''] ''='' False) = Inl FlagConflict \<and>
   fst (SetOptions Parser_default invalid_options [''-''] [''--''] ''='' False) =
     Inl EmptyIdentifierName"
  by (simp add: invalid_options_def parser_eval)


section \<open>Case-insensitive matching\<close>

lemma case_parser_eq:
  "case_parser ci =
     \<lparr>options = case_options, short_flags = [''-'', ''x''], long_flags = [''--'', ''xx''],
      option_value_separator = ''eq'', case_insensitive = ci, option_map = Map.empty\<rparr>"
  by (simp add: case_parser_def SetOptions_state Parser_default_def)

lemma of_char_toupper:
  "(of_char (toupper c) :: nat) =
     (if 97 \<le> (of_char c :: nat) \<and> (of_char c :: nat) \<le> 122 then of_char c - 32
      else of_char c)"
proof -
  have "(of_char c :: nat) - 32 < 256" using nat_of_char_less_256 [of c] by arith
  then have "((of_char c :: nat) - 32) mod 256 = of_char c - 32" by (rule mod_less)
  then show ?thesis by (simp add: toupper_def)
qed

lemma toupper_eq_iff:
  "toupper c = toupper x \<longleftrightarrow>
     c = x \<or>
     (97 \<le> (of_char c :: nat) \<and> (of_char c :: nat) \<le> 122 \<and>
        (of_char x :: nat) = of_char c - 32) \<or>
     (97 \<le> (of_char x :: nat) \<and> (of_char x :: nat) \<le> 122 \<and>
        (of_char c :: nat) = of_char x - 32)"
proof -
  have a: "toupper c = toupper x \<longleftrightarrow> (of_char (toupper c) :: nat) = of_char (toupper x)"
    by (simp add: of_char_eq_iff)
  have b: "c = x \<longleftrightarrow> (of_char c :: nat) = of_char x"
    by (simp add: of_char_eq_iff)
  show ?thesis unfolding a b of_char_toupper by (auto simp del: of_char_eq_iff)
qed

lemma same_letter_True: "same_letter True c x \<longleftrightarrow> toupper c = toupper x"
  by (auto simp: same_letter_def)

lemma list_all2_same_letter_True:
  "length L = length N \<Longrightarrow> list_all2 (same_letter True) L N \<longleftrightarrow> Uppercase L = Uppercase N"
  unfolding Uppercase_def
  by (induction L N rule: list_induct2) (simp_all add: same_letter_True)

lemma list_all2_same_letter_False: "list_all2 (same_letter False) L N \<longleftrightarrow> L = N"
proof -
  have "same_letter False = (=)" by (intro ext) (simp add: same_letter_def)
  then show ?thesis by (simp add: list.rel_eq)
qed

lemma long_form_begins_iff:
  "long_form_begins ci L span \<longleftrightarrow>
     length L < 2 ^ 32 \<and> length L \<le> length span \<and>
     (if ci then Uppercase L = Uppercase (take (length L) span)
      else L = take (length L) span)"
proof (cases ci)
  case True
  have "length L \<le> length span \<Longrightarrow>
      list_all2 (same_letter True) L (take (length L) span) \<longleftrightarrow>
      Uppercase L = Uppercase (take (length L) span)"
    by (rule list_all2_same_letter_True) simp
  with True show ?thesis by (auto simp: long_form_begins_def)
next
  case False
  then show ?thesis by (auto simp: long_form_begins_def list_all2_same_letter_False)
qed

lemma find_short_option_eq:
  "find_short_option ci opts user_option =
     find (\<lambda>d. short_option d \<noteq> [] \<and>
               (if ci then Uppercase (short_option d) = Uppercase user_option
                else short_option d = user_option)) opts"
  by (induction opts) auto


text \<open>
  C8.  With the case-insensitivity toggle set, two characters of an identifier match
  exactly when \<open>toupper\<close> maps them to the same character, that is, when they are equal
  or one is a letter a..z and the other its upper-case form.  A long form is matched in
  full exactly when the span begins with a text of its length that equals it after
  upper-casing both (without the toggle: that equals it), and the descriptor found for a
  short option character is the first one whose non-empty short form equals the
  character after upper-casing both (without the toggle: equals it).  So \<open>--FOO\<close>,
  \<open>--Foo\<close> and \<open>-F\<close> select the descriptor \<open>foo\<close> under the toggle, while
  \<open>--XYZ\<close> and \<open>-Q\<close> are rejected.  Flag prefixes and the value separator are matched
  by \<open>FindStringStart\<close>, which compares characters exactly and has no access to the
  toggle: \<open>XXfoo\<close> is not taken for the long flag \<open>xx\<close>, and \<open>EQ\<close> not for the
  separator \<open>eq\<close>.  Validation gives the same result whatever the toggle: the
  specification with the long forms \<open>foo\<close> and \<open>FOO\<close> is accepted with the toggle set.
\<close>

theorem case_insensitive_matching:
  "(toupper c = toupper x \<longleftrightarrow>
      c = x \<or>
      (97 \<le> (of_char c :: nat) \<and> (of_char c :: nat) \<le> 122 \<and>
         (of_char x :: nat) = of_char c - 32) \<or>
      (97 \<le> (of_char x :: nat) \<and> (of_char x :: nat) \<le> 122 \<and>
         (of_char c :: nat) = of_char x - 32)) \<and>
   (long_option_match ci long_form span 0 = (m, rest) \<longrightarrow>
      ((\<not> unat m < length long_form) \<longleftrightarrow>
         length long_form < 2 ^ 32 \<and> length long_form \<le> length span \<and>
         (if ci then Uppercase long_form = Uppercase (take (length long_form) span)
          else long_form = take (length long_form) span)) \<and>
      (\<not> unat m < length long_form \<longrightarrow> rest = drop (length long_form) span)) \<and>
   find_short_option ci opts user_option =
     find (\<lambda>d. short_option d \<noteq> [] \<and>
               (if ci then Uppercase (short_option d) = Uppercase user_option
                else short_option d = user_option)) opts \<and>
   (FindStringStart prefix s = Some rest' \<longleftrightarrow>
      s \<noteq> [] \<and> length prefix < 2 ^ 32 \<and> s = prefix @ rest') \<and>
   fst (SetOptions P opts' sflags lflags separator True) =
     fst (SetOptions P opts' sflags lflags separator False) \<and>
   fst (SetOptions Parser_default case_options [''-'', ''x''] [''--'', ''xx''] ''eq'' True) =
     Inr () \<and>
   ProcessArgument (case_parser True) ''--FOO'' None =
     (Inr False, case_parser True\<lparr>option_map := [''foo'' \<mapsto> ['''']]\<rparr>) \<and>
   ProcessArgument (case_parser False) ''--FOO'' None =
     (Inr False, case_parser False\<lparr>option_map := [''upper'' \<mapsto> ['''']]\<rparr>) \<and>
   ProcessArgument (case_parser True) ''--Foo'' None =
     (Inr False, case_parser True\<lparr>option_map := [''foo'' \<mapsto> ['''']]\<rparr>) \<and>
   ProcessArgument (case_parser False) ''--Foo'' None =
     (Inl InvalidLongOption, case_parser False) \<and>
   ProcessArgument (case_parser True) ''--XYZ'' None =
     (Inl InvalidLongOption, case_parser True) \<and>
   ProcessArgument (case_parser True) ''-F'' None =
     (Inr False, case_parser True\<lparr>option_map := [''foo'' \<mapsto> ['''']]\<rparr>) \<and>
   ProcessArgument (case_parser False) ''-F'' None =
     (Inr False, case_parser False\<lparr>option_map := [''upper'' \<mapsto> ['''']]\<rparr>) \<and>
   ProcessArgument (case_parser True) ''-Q'' None =
     (Inl InvalidShortOption, case_parser True) \<and>
   ProcessArgument (case_parser True) ''xxfoo'' None =
     (Inr False, case_parser True\<lparr>option_map := [''foo'' \<mapsto> ['''']]\<rparr>) \<and>
   ProcessArgument (case_parser True) ''XXfoo'' None =
     (Inr False, case_parser True\<lparr>option_map := ['''' \<mapsto> [''XXfoo'']]\<rparr>) \<and>
   ProcessArgument (case_parser True) ''--LEVELeq5'' None =
     (Inr False, case_parser True\<lparr>option_map := [''level'' \<mapsto> [''5'']]\<rparr>) \<and>
   ProcessArgument (case_parser True) ''--levelEQ5'' None =
     (Inl InvalidLongOption, case_parser True)"
proof -
  have 1: "toupper c = toupper x \<longleftrightarrow>
      c = x \<or>
      (97 \<le> (of_char c :: nat) \<and> (of_char c :: nat) \<le> 122 \<and>
         (of_char x :: nat) = of_char c - 32) \<or>
      (97 \<le> (of_char x :: nat) \<and> (of_char x :: nat) \<le> 122 \<and>
         (of_char c :: nat) = of_char x - 32)"
    by (rule toupper_eq_iff)
  have 2: "((\<not> unat m < length long_form) \<longleftrightarrow>
         length long_form < 2 ^ 32 \<and> length long_form \<le> length span \<and>
         (if ci then Uppercase long_form = Uppercase (take (length long_form) span)
          else long_form = take (length long_form) span)) \<and>
      (\<not> unat m < length long_form \<longrightarrow> rest = drop (length long_form) span)"
    if l: "long_option_match ci long_form span 0 = (m, rest)"
    using long_option_match_eq [OF l] long_form_begins_iff [of ci long_form span] by blast
  have 3: "find_short_option ci opts user_option =
     find (\<lambda>d. short_option d \<noteq> [] \<and>
               (if ci then Uppercase (short_option d) = Uppercase user_option
                else short_option d = user_option)) opts"
    by (rule find_short_option_eq)
  have 4: "FindStringStart prefix s = Some rest' \<longleftrightarrow>
      s \<noteq> [] \<and> length prefix < 2 ^ 32 \<and> s = prefix @ rest'"
    by (rule FindStringStart_Some_iff)
  have 5: "fst (SetOptions P opts' sflags lflags separator True) =
     fst (SetOptions P opts' sflags lflags separator False)"
    by (simp add: SetOptions_def Let_def ClearOptions_def CheckOptionFlags_def CheckOptions_def
          split: sum.splits)
  have 6: "fst (SetOptions Parser_default case_options [''-'', ''x''] [''--'', ''xx''] ''eq'' True) =
     Inr ()"
    by (simp add: case_options_def parser_eval)
  have 7: "ProcessArgument (case_parser True) ''--FOO'' None =
     (Inr False, case_parser True\<lparr>option_map := [''foo'' \<mapsto> ['''']]\<rparr>)"
    and 8: "ProcessArgument (case_parser False) ''--FOO'' None =
     (Inr False, case_parser False\<lparr>option_map := [''upper'' \<mapsto> ['''']]\<rparr>)"
    and 9: "ProcessArgument (case_parser True) ''--Foo'' None =
     (Inr False, case_parser True\<lparr>option_map := [''foo'' \<mapsto> ['''']]\<rparr>)"
    and 10: "ProcessArgument (case_parser False) ''--Foo'' None =
     (Inl InvalidLongOption, case_parser False)"
    and 11: "ProcessArgument (case_parser True) ''--XYZ'' None =
     (Inl InvalidLongOption, case_parser True)"
    by (simp_all add: case_parser_eq case_options_def parser_eval char_eval)
  have 12: "ProcessArgument (case_parser True) ''-F'' None =
     (Inr False, case_parser True\<lparr>option_map := [''foo'' \<mapsto> ['''']]\<rparr>)"
    and 13: "ProcessArgument (case_parser False) ''-F'' None =
     (Inr False, case_parser False\<lparr>option_map := [''upper'' \<mapsto> ['''']]\<rparr>)"
    and 14: "ProcessArgument (case_parser True) ''-Q'' None =
     (Inl InvalidShortOption, case_parser True)"
    by (simp_all add: case_parser_eq case_options_def parser_eval char_eval)
  have 15: "ProcessArgument (case_parser True) ''xxfoo'' None =
     (Inr False, case_parser True\<lparr>option_map := [''foo'' \<mapsto> ['''']]\<rparr>)"
    and 16: "ProcessArgument (case_parser True) ''XXfoo'' None =
     (Inr False, case_parser True\<lparr>option_map := ['''' \<mapsto> [''XXfoo'']]\<rparr>)"
    and 17: "ProcessArgument (case_parser True) ''--LEVELeq5'' None =
     (Inr False, case_parser True\<lparr>option_map := [''level'' \<mapsto> [''5'']]\<rparr>)"
    and 18: "ProcessArgument (case_parser True) ''--levelEQ5'' None =
     (Inl InvalidLongOption, case_parser True)"
    by (simp_all add: case_parser_eq case_options_def parser_eval char_eval)
  from 1 2 3 4 5 6 7 8 9 10 11 12 13 14 15 16 17 18 show ?thesis by blast
qed

theorem case_insensitive_matching_witness:
  "long_option_match True ''foo'' ''FOO=x'' 0 = (3, ''=x'') \<and>
   Uppercase ''foo'' = Uppercase (take 3 ''FOO=x'') \<and>
   long_option_match True ''foo'' ''XYZ'' 0 = (0, ''XYZ'') \<and>
   Uppercase ''foo'' \<noteq> Uppercase (take 3 ''XYZ'') \<and>
   toupper CHR ''f'' = toupper CHR ''F'' \<and>
   toupper CHR ''f'' \<noteq> toupper CHR ''X'' \<and>
   find_short_option True case_options ''F'' = Some (hd case_options) \<and>
   find_short_option True case_options ''Q'' = None \<and>
   FindStringStart ''eq'' ''EQ5'' = None \<and>
   FindStringStart ''eq'' ''eq5'' = Some ''5''"
proof -
  note t = case_insensitive_matching
  have foo: "long_option_match True ''foo'' ''FOO=x'' 0 = (3, ''=x'')"
    and xyz: "long_option_match True ''foo'' ''XYZ'' 0 = (0, ''XYZ'')"
    by (simp_all add: char_eval)
  have a: "Uppercase ''foo'' = Uppercase (take 3 ''FOO=x'')"
    using t [where ci = True and long_form = "''foo''" and span = "''FOO=x''" and m = 3
        and rest = "''=x''", THEN conjunct2, THEN conjunct1, rule_format, OF foo,
        THEN conjunct1]
    by simp
  have b: "Uppercase ''foo'' \<noteq> Uppercase (take 3 ''XYZ'')"
    using t [where ci = True and long_form = "''foo''" and span = "''XYZ''" and m = 0
        and rest = "''XYZ''", THEN conjunct2, THEN conjunct1, rule_format, OF xyz,
        THEN conjunct1]
    by simp
  have c: "toupper CHR ''f'' = toupper CHR ''F''"
    using t [where c = "CHR ''f''" and x = "CHR ''F''", THEN conjunct1] by simp
  have d: "toupper CHR ''f'' \<noteq> toupper CHR ''X''"
    using t [where c = "CHR ''f''" and x = "CHR ''X''", THEN conjunct1] by simp
  have e: "find_short_option True case_options ''F'' = Some (hd case_options)"
    and f: "find_short_option True case_options ''Q'' = None"
    unfolding t [where ci = True and opts = case_options, THEN conjunct2, THEN conjunct2,
        THEN conjunct1]
    by (simp_all add: case_options_def char_eval)
  have g: "FindStringStart ''eq'' ''EQ5'' = None"
    using t [where prefix = "''eq''" and s = "''EQ5''", THEN conjunct2, THEN conjunct2,
        THEN conjunct2, THEN conjunct1]
    by (cases "FindStringStart ''eq'' ''EQ5''") auto
  have h: "FindStringStart ''eq'' ''eq5'' = Some ''5''"
    using t [where prefix = "''eq''" and s = "''eq5''" and rest' = "''5''", THEN conjunct2,
        THEN conjunct2, THEN conjunct2, THEN conjunct1]
    by simp
  from foo xyz a b c d e f g h show ?thesis by blast
qed

end
